theory Spec2Isabelle
  imports Complex_Main
begin

section \<open>Data model\<close>

text \<open>
  The embedding follows \<^verbatim>\<open>orchestrator/augmentor/extract_env.py\<close>.
  Python floats are idealised as real numbers: comparisons, halving, doubling and the
  subtraction of a number from itself behave on finite floats as they do on reals; rounding
  inside sums and square roots is not modelled.
\<close>

type_synonym vec3 = "real \<times> real \<times> real"
type_synonym ivec3 = "int \<times> int \<times> int"
type_synonym mat3 = "vec3 \<times> vec3 \<times> vec3"

text \<open>The exceptions the two functions can raise, with the message where the source gives one.\<close>

datatype error =
    ValueError string
  | CellTooSmallError string
  | KeyError string
  | IndexError
  | TypeError

text \<open>
  A value stored in the \<^verbatim>\<open>info\<close> dictionary of a structure: either a plain value or a
  nested dictionary (the value kept under the reserved metadata key). Dictionaries are
  association lists in insertion order.
\<close>

datatype 'w info_value = Plain 'w | Dict "(string \<times> 'w) list"

text \<open>
  An \<^verbatim>\<open>ase.Atoms\<close> object, reduced to the fields the extractor reads and writes:
  positions, chemical symbols, cell, periodic flag, the auxiliary per-atom arrays, the
  \<^verbatim>\<open>info\<close> dictionary, and the index list of the \<^verbatim>\<open>FixAtoms\<close> constraint.
  The field \<open>arrays\<close> holds the auxiliary arrays only: the library's built-in arrays
  (\<^verbatim>\<open>positions\<close>, \<^verbatim>\<open>numbers\<close>) are the fields \<open>positions\<close> and \<open>symbols\<close>, and
  are not addressed by key here, so a key of \<^verbatim>\<open>keys_to_transfer\<close> always names an
  auxiliary array.
\<close>

record ('v, 'w) atoms =
  positions :: "vec3 list"
  symbols :: "string list"
  cell :: mat3
  pbc :: bool
  arrays :: "(string \<times> 'v list) list"
  info :: "(string \<times> 'w info_value) list"
  fix_atoms :: "nat list"

section \<open>Python and numpy primitives\<close>

text \<open>\<^verbatim>\<open>xs[i]\<close> on a sequence: a negative index counts from the end, an index out of range raises.\<close>

definition py_index :: "'a list \<Rightarrow> int \<Rightarrow> error + 'a" where
  "py_index xs i =
     (if 0 \<le> i \<and> i < int (length xs) then Inr (xs ! nat i)
      else if - int (length xs) \<le> i \<and> i < 0 then Inr (xs ! nat (int (length xs) + i))
      else Inl IndexError)"

text \<open>\<^verbatim>\<open>d[k]\<close>, \<^verbatim>\<open>d[k] = v\<close> and \<^verbatim>\<open>k in d\<close> on a dictionary.\<close>

definition dict_get :: "(string \<times> 'a) list \<Rightarrow> string \<Rightarrow> error + 'a" where
  "dict_get d k = (case map_of d k of None \<Rightarrow> Inl (KeyError k) | Some v \<Rightarrow> Inr v)"

fun dict_set :: "string \<Rightarrow> 'a \<Rightarrow> (string \<times> 'a) list \<Rightarrow> (string \<times> 'a) list" where
  "dict_set k v [] = [(k, v)]"
| "dict_set k v ((k', v') # d) = (if k' = k then (k, v) # d else (k', v') # dict_set k v d)"

definition dict_contains :: "(string \<times> 'a) list \<Rightarrow> string \<Rightarrow> bool" where
  "dict_contains d k = (map_of d k \<noteq> None)"

text \<open>\<^verbatim>\<open>a in b\<close> on two strings: \<open>a\<close> occurs in \<open>b\<close> as a contiguous substring.\<close>

fun starts_with :: "string \<Rightarrow> string \<Rightarrow> bool" where
  "starts_with [] b = True"
| "starts_with (x # a) [] = False"
| "starts_with (x # a) (y # b) = (x = y \<and> starts_with a b)"

fun str_contains :: "string \<Rightarrow> string \<Rightarrow> bool" where
  "str_contains a [] = (a = [])"
| "str_contains a (y # b) = (starts_with a (y # b) \<or> str_contains a b)"

text \<open>\<^verbatim>\<open>x.rsplit('_', 1)[0]\<close>: the part before the last underscore, or all of \<open>x\<close> without one.\<close>

definition rsplit_base :: "string \<Rightarrow> string" where
  "rsplit_base x =
     (if CHR ''_'' \<in> set x then rev (tl (dropWhile (\<lambda>c. c \<noteq> CHR ''_'') (rev x))) else x)"

text \<open>
  The truth value of a numpy boolean array, as \<^verbatim>\<open>if\<close> asks for it: the element of a
  one-element array, an exception for more than one element. (An empty array is false, with
  a deprecation warning, in the numpy versions that accept it.)
\<close>

definition ambiguous_truth :: string where
  "ambiguous_truth =
     ''The truth value of an array with more than one element is ambiguous. Use a.any() or a.all()''"

fun np_bool :: "bool list \<Rightarrow> error + bool" where
  "np_bool [] = Inr False"
| "np_bool [b] = Inr b"
| "np_bool (b # c # bs) = Inl (ValueError ambiguous_truth)"

section \<open>Vectors and cells\<close>

text \<open>The \<^verbatim>\<open>new_cell\<close> argument: an array of three side lengths or a full 3x3 matrix.\<close>

datatype ndarray = Vec3 vec3 | Mat3 mat3

definition vadd :: "vec3 \<Rightarrow> vec3 \<Rightarrow> vec3" where
  "vadd p q = (case p of (px, py, pz) \<Rightarrow> case q of (qx, qy, qz) \<Rightarrow> (px + qx, py + qy, pz + qz))"

definition vsub :: "vec3 \<Rightarrow> vec3 \<Rightarrow> vec3" where
  "vsub p q = (case p of (px, py, pz) \<Rightarrow> case q of (qx, qy, qz) \<Rightarrow> (px - qx, py - qy, pz - qz))"

definition vhalf :: "vec3 \<Rightarrow> vec3" where
  "vhalf p = (case p of (px, py, pz) \<Rightarrow> (px / 2, py / 2, pz / 2))"

text \<open>\<^verbatim>\<open>offset @ cell\<close>: an integer row vector times the matrix of lattice vectors.\<close>

definition offset_matmul :: "ivec3 \<Rightarrow> mat3 \<Rightarrow> vec3" where
  "offset_matmul offset m =
     (case offset of (o1, o2, o3) \<Rightarrow>
      case m of ((a1, a2, a3), (b1, b2, b3), (c1, c2, c3)) \<Rightarrow>
        (real_of_int o1 * a1 + real_of_int o2 * b1 + real_of_int o3 * c1,
         real_of_int o1 * a2 + real_of_int o2 * b2 + real_of_int o3 * c2,
         real_of_int o1 * a3 + real_of_int o2 * b3 + real_of_int o3 * c3))"

text \<open>\<^verbatim>\<open>np.linalg.norm(v, 2)\<close> of one row, and row by row (\<^verbatim>\<open>axis=1\<close>) of a matrix.\<close>

definition norm3 :: "vec3 \<Rightarrow> real" where
  "norm3 p = (case p of (x, y, z) \<Rightarrow> sqrt (x\<^sup>2 + y\<^sup>2 + z\<^sup>2))"

definition row_norms :: "mat3 \<Rightarrow> vec3" where
  "row_norms m = (case m of (r1, r2, r3) \<Rightarrow> (norm3 r1, norm3 r2, norm3 r3))"

definition np_max3 :: "vec3 \<Rightarrow> real" where
  "np_max3 p = (case p of (x, y, z) \<Rightarrow> max x (max y z))"

text \<open>
  \<^verbatim>\<open>new_cell[np.where(~np.eye(3, dtype=bool))]\<close>: the six off-diagonal entries, row by row.
\<close>

definition off_diagonal :: "mat3 \<Rightarrow> real list" where
  "off_diagonal m =
     (case m of ((a1, a2, a3), (b1, b2, b3), (c1, c2, c3)) \<Rightarrow> [a2, a3, b1, b3, c1, c2])"

text \<open>\<^verbatim>\<open>np.all(np.abs(d) <= h)\<close> on one row: the displacement lies in the cube of half side \<open>h\<close>.\<close>

definition in_cube :: "real \<Rightarrow> vec3 \<Rightarrow> bool" where
  "in_cube h d = (case d of (x, y, z) \<Rightarrow> \<bar>x\<bar> \<le> h \<and> \<bar>y\<bar> \<le> h \<and> \<bar>z\<bar> \<le> h)"

text \<open>The cell that \<^verbatim>\<open>Atoms(cell=new_cell)\<close> stores: three lengths become a diagonal matrix.\<close>

definition to_cell :: "ndarray \<Rightarrow> mat3" where
  "to_cell new_cell =
     (case new_cell of
        Vec3 v \<Rightarrow> (case v of (a, b, c) \<Rightarrow> ((a, 0, 0), (0, b, 0), (0, 0, c)))
      | Mat3 m \<Rightarrow> m)"

section \<open>Environment extractor\<close>

subsection \<open>Validation\<close>

text \<open>
  Lines 39 to 48: the side lengths and the largest of them. For a matrix the source writes
  \<^verbatim>\<open>if ~(new_cell[...] == 0):\<close>, which asks for the truth value of the negated six-element
  comparison array.
\<close>

definition cell_shape :: "ndarray \<Rightarrow> error + (vec3 \<times> real)" where
  "cell_shape new_cell =
     (case new_cell of
        Vec3 v \<Rightarrow> Inr (v, np_max3 v)
      | Mat3 m \<Rightarrow>
          (case np_bool (map (\<lambda>x. \<not> (x = 0)) (off_diagonal m)) of
             Inl e \<Rightarrow> Inl e
           | Inr b \<Rightarrow>
               if b
               then Inl (ValueError
                 ''New cell is non orthorhombic; this is an unxpected case not accounted for'')
               else Inr (row_norms m, np_max3 (row_norms m))))"

text \<open>
  Lines 53 to 67. \<^verbatim>\<open>original_atoms.cell.cellpar()[0..2]\<close> are the lengths of the three
  lattice vectors of the source.
\<close>

definition initial_checks :: "mat3 \<Rightarrow> real \<Rightarrow> vec3 \<Rightarrow> real \<Rightarrow> error + unit" where
  "initial_checks source_cell rc cell_norms max_cell_len =
     (case cell_norms of (n0, n1, n2) \<Rightarrow>
      case row_norms source_cell of (l0, l1, l2) \<Rightarrow>
        if \<not> (n0 = n1 \<and> n1 = n2)
        then Inl (ValueError
          ''New cell is not a cube. This is an unxpected case not accounted for'')
        else if max_cell_len > l0 \<or> max_cell_len > l1 \<or> max_cell_len > l2
        then Inl (CellTooSmallError
          ''Requested extracted cell size is larger than original structure'')
        else if max_cell_len < rc
        then Inl (CellTooSmallError
          ''The specified value for rc is greater than the maximum cell vector length for the new supercell'')
        else if rc * 2 > max_cell_len
        then Inl (CellTooSmallError ''2*rc is greater than the extracted cell side length'')
        else Inr ())"

subsection \<open>The loops over keys, neighbours and selected indices\<close>

text \<open>\<^verbatim>\<open>{k: original_atoms.get_array(k) for k in keys_to_transfer}\<close>; a missing array raises.\<close>

fun get_arrays ::
  "(string \<times> 'v list) list \<Rightarrow> string list \<Rightarrow> (string \<times> 'v list) list
     \<Rightarrow> error + (string \<times> 'v list) list" where
  "get_arrays source_arrays [] acc = Inr acc"
| "get_arrays source_arrays (k # ks) acc =
     (case dict_get source_arrays k of
        Inl e \<Rightarrow> Inl e
      | Inr arr \<Rightarrow> get_arrays source_arrays ks (dict_set k arr acc))"

text \<open>\<^verbatim>\<open>{k: [] for k in keys_to_transfer}\<close>.\<close>

fun empty_lists :: "string list \<Rightarrow> (string \<times> 'v list) list \<Rightarrow> (string \<times> 'v list) list" where
  "empty_lists [] acc = acc"
| "empty_lists (k # ks) acc = empty_lists ks (dict_set k [] acc)"

text \<open>
  \<^verbatim>\<open>for key in keys_to_transfer: target[key].append(source[key][i])\<close>, the inner loop of
  lines 92-93, 104-105 and 114-115.
\<close>

fun append_arrays ::
  "(string \<times> 'v list) list \<Rightarrow> nat \<Rightarrow> string list \<Rightarrow> (string \<times> 'v list) list
     \<Rightarrow> error + (string \<times> 'v list) list" where
  "append_arrays source i [] target = Inr target"
| "append_arrays source i (key # keys) target =
     (case dict_get target key of
        Inl e \<Rightarrow> Inl e
      | Inr collected \<Rightarrow>
          (case dict_get source key of
             Inl e \<Rightarrow> Inl e
           | Inr arr \<Rightarrow>
               (case py_index arr (int i) of
                  Inl e \<Rightarrow> Inl e
                | Inr v \<Rightarrow>
                    append_arrays source i keys (dict_set key (collected @ [v]) target))))"

text \<open>
  Lines 87 to 94, over \<^verbatim>\<open>zip(indices, offsets)\<close>. The rows of \<^verbatim>\<open>neigh_disp\<close> are
  written at \<^verbatim>\<open>neigh_ind\<close>, which counts the iterations: the rows are appended in order.
\<close>

fun collect_neighbors ::
  "vec3 list \<Rightarrow> string list \<Rightarrow> mat3 \<Rightarrow> int \<Rightarrow> (string \<times> 'v list) list \<Rightarrow> string list
     \<Rightarrow> (nat \<times> ivec3) list
     \<Rightarrow> vec3 list \<times> string list \<times> (string \<times> 'v list) list
     \<Rightarrow> error + (vec3 list \<times> string list \<times> (string \<times> 'v list) list)" where
  "collect_neighbors pos syms source_cell atom_ind key_arrays keys [] st = Inr st"
| "collect_neighbors pos syms source_cell atom_ind key_arrays keys ((i, offset) # rest)
       (neigh_disp, neigh_symbols, neigh_arrays) =
     (case py_index pos (int i) of
        Inl e \<Rightarrow> Inl e
      | Inr pos_i \<Rightarrow>
     (case py_index pos atom_ind of
        Inl e \<Rightarrow> Inl e
      | Inr pos_center \<Rightarrow>
     (case py_index syms (int i) of
        Inl e \<Rightarrow> Inl e
      | Inr symbol \<Rightarrow>
     (case append_arrays key_arrays i keys neigh_arrays of
        Inl e \<Rightarrow> Inl e
      | Inr neigh_arrays' \<Rightarrow>
          collect_neighbors pos syms source_cell atom_ind key_arrays keys rest
            (neigh_disp @ [vsub (vadd pos_i (offset_matmul offset source_cell)) pos_center],
             neigh_symbols @ [symbol], neigh_arrays')))))"

text \<open>
  Lines 102 to 105 and 112 to 115: the symbols and array entries at the selected indices.
\<close>

fun select_entries ::
  "string list \<Rightarrow> (string \<times> 'v list) list \<Rightarrow> string list \<Rightarrow> nat list
     \<Rightarrow> string list \<times> (string \<times> 'v list) list
     \<Rightarrow> error + (string list \<times> (string \<times> 'v list) list)" where
  "select_entries from_symbols from_arrays keys [] st = Inr st"
| "select_entries from_symbols from_arrays keys (i # rest) (to_symbols, to_arrays) =
     (case py_index from_symbols (int i) of
        Inl e \<Rightarrow> Inl e
      | Inr symbol \<Rightarrow>
     (case append_arrays from_arrays i keys to_arrays of
        Inl e \<Rightarrow> Inl e
      | Inr to_arrays' \<Rightarrow>
          select_entries from_symbols from_arrays keys rest (to_symbols @ [symbol], to_arrays')))"

text \<open>\<^verbatim>\<open>np.where(cond)[0]\<close>: the indices of the rows that satisfy the condition.\<close>

definition np_where :: "('a \<Rightarrow> bool) \<Rightarrow> 'a list \<Rightarrow> nat list" where
  "np_where cond rows = filter (\<lambda>i. cond (rows ! i)) [0..<length rows]"

text \<open>\<^verbatim>\<open>rows[ind, :]\<close>: the rows at the given indices (always in range here).\<close>

definition take_rows :: "'a list \<Rightarrow> nat list \<Rightarrow> 'a list" where
  "take_rows rows ind = map (\<lambda>i. rows ! i) ind"

text \<open>
  Lines 136 to 138, over \<^verbatim>\<open>new_arrays.items()\<close>: \<^verbatim>\<open>set_array\<close> refuses an array whose
  length is not the number of atoms (its message, which quotes the key and both lengths, is
  shortened here).
\<close>

fun set_arrays ::
  "(string \<times> 'v list) list \<Rightarrow> ('v, 'w) atoms \<Rightarrow> error + ('v, 'w) atoms" where
  "set_arrays [] new_atoms = Inr new_atoms"
| "set_arrays ((key, arr) # rest) new_atoms =
     (if length arr \<noteq> length (positions new_atoms)
      then Inl (ValueError ''Array has wrong length'')
      else set_arrays rest (new_atoms\<lparr>arrays := dict_set key arr (arrays new_atoms)\<rparr>))"

subsection \<open>The metadata dictionaries\<close>

text \<open>
  Lines 143 to 145: every top-level key that contains \<open>output_key\<close> as a substring is copied.
\<close>

fun scan_info ::
  "string \<Rightarrow> (string \<times> 'w info_value) list \<Rightarrow> string list
     \<Rightarrow> (string \<times> 'w info_value) list \<Rightarrow> (string \<times> 'w info_value) list" where
  "scan_info output_key source_info [] new_info_dict = new_info_dict"
| "scan_info output_key source_info (info_key # rest) new_info_dict =
     (if str_contains output_key info_key
      then (case map_of source_info info_key of
              None \<Rightarrow> scan_info output_key source_info rest new_info_dict
            | Some v \<Rightarrow>
                scan_info output_key source_info rest (dict_set info_key v new_info_dict))
      else scan_info output_key source_info rest new_info_dict)"

text \<open>
  Lines 142 to 148, over the base names of \<^verbatim>\<open>keys_to_transfer\<close>. The reserved key
  \<open>metadata_key\<close> (\<^verbatim>\<open>METADATA_KEY\<close>, imported from a module that is not part of the
  sources at hand) is a parameter. The value under it is a dictionary by convention; any
  other value is modelled as the \<^verbatim>\<open>TypeError\<close> that a number there raises.
\<close>

fun build_info ::
  "string \<Rightarrow> (string \<times> 'w info_value) list \<Rightarrow> string list
     \<Rightarrow> (string \<times> 'w info_value) list \<times> (string \<times> 'w) list
     \<Rightarrow> error + ((string \<times> 'w info_value) list \<times> (string \<times> 'w) list)" where
  "build_info metadata_key source_info [] st = Inr st"
| "build_info metadata_key source_info (output_key # rest) (new_info_dict, new_metadata_dict) =
     (let new_info_dict' = scan_info output_key source_info (map fst source_info) new_info_dict
      in case dict_get source_info metadata_key of
           Inl e \<Rightarrow> Inl e
         | Inr (Plain x) \<Rightarrow> Inl TypeError
         | Inr (Dict metadata) \<Rightarrow>
             if dict_contains metadata output_key
             then (case dict_get metadata output_key of
                     Inl e \<Rightarrow> Inl e
                   | Inr v \<Rightarrow>
                       build_info metadata_key source_info rest
                         (new_info_dict', dict_set output_key v new_metadata_dict))
             else build_info metadata_key source_info rest (new_info_dict', new_metadata_dict))"

subsection \<open>One extracted structure\<close>

text \<open>
  Lines 82 to 115 for one centre: the neighbours' displacements, the cube filter and the
  sphere filter, each with its symbols and auxiliary arrays. \<open>nl\<close> is the table that
  \<^verbatim>\<open>NeighborList(cutoffs, self_interaction=True, bothways=True)\<close> holds after
  \<^verbatim>\<open>nl.update(original_atoms)\<close>: for every atom the (index, offset) pairs of its
  neighbours. The neighbour search itself belongs to the atomic-structure library.
\<close>

record 'v selection =
  cube_disp :: "vec3 list"
  cube_symbols :: "string list"
  cube_arrays :: "(string \<times> 'v list) list"
  ind_in_rc :: "nat list"
  sphere_disp :: "vec3 list"
  sphere_symbols :: "string list"
  sphere_arrays :: "(string \<times> 'v list) list"

definition gather ::
  "(nat \<times> ivec3) list list \<Rightarrow> ('v, 'w) atoms \<Rightarrow> real \<Rightarrow> string list \<Rightarrow> real
     \<Rightarrow> (string \<times> 'v list) list \<Rightarrow> int \<Rightarrow> error + 'v selection" where
  "gather nl original_atoms rc keys max_cell_len key_arrays atom_ind =
     (case py_index nl atom_ind of
        Inl e \<Rightarrow> Inl e
      | Inr neighbors \<Rightarrow>
     (case collect_neighbors (positions original_atoms) (symbols original_atoms)
             (cell original_atoms) atom_ind key_arrays keys neighbors
             ([], [], empty_lists keys []) of
        Inl e \<Rightarrow> Inl e
      | Inr (neigh_disp, neigh_symbols, neigh_arrays) \<Rightarrow>
     (let ind_in_cube = np_where (in_cube (max_cell_len / 2)) neigh_disp;
          cube_d = take_rows neigh_disp ind_in_cube
      in case select_entries neigh_symbols neigh_arrays keys ind_in_cube
                ([], empty_lists keys []) of
        Inl e \<Rightarrow> Inl e
      | Inr (cube_s, cube_a) \<Rightarrow>
     (let ind_rc = np_where (\<lambda>d. norm3 d \<le> rc) cube_d;
          sphere_d = take_rows cube_d ind_rc
      in case select_entries cube_s cube_a keys ind_rc ([], empty_lists keys []) of
        Inl e \<Rightarrow> Inl e
      | Inr (sphere_s, sphere_a) \<Rightarrow>
          Inr \<lparr>cube_disp = cube_d, cube_symbols = cube_s, cube_arrays = cube_a,
               ind_in_rc = ind_rc, sphere_disp = sphere_d, sphere_symbols = sphere_s,
               sphere_arrays = sphere_a\<rparr>))))"

text \<open>
  Lines 118 to 154: the choice between cube and sphere, the shift by the box centre, the new
  \<^verbatim>\<open>Atoms\<close> object with its arrays, its \<^verbatim>\<open>info\<close> and its \<^verbatim>\<open>FixAtoms\<close> constraint.
\<close>

definition make_atoms ::
  "string \<Rightarrow> (string \<times> 'w info_value) list \<Rightarrow> ndarray \<Rightarrow> bool \<Rightarrow> string list \<Rightarrow> vec3
     \<Rightarrow> 'v selection \<Rightarrow> error + ('v, 'w) atoms" where
  "make_atoms metadata_key source_info new_cell extract_cube keys cell_norms sel =
     (let new_pos = (if extract_cube then cube_disp sel else sphere_disp sel);
          new_symbols = (if extract_cube then cube_symbols sel else sphere_symbols sel);
          ind_fix = (if extract_cube then ind_in_rc sel else [0..<length new_pos]);
          new_arrays = (if extract_cube then cube_arrays sel else sphere_arrays sel);
          box_center = vhalf cell_norms;
          new_pos' = map (\<lambda>d. vadd d box_center) new_pos;
          new_atoms = \<lparr>positions = new_pos', symbols = new_symbols, cell = to_cell new_cell,
                       pbc = True, arrays = [], info = [], fix_atoms = []\<rparr>
      in case set_arrays new_arrays new_atoms of
           Inl e \<Rightarrow> Inl e
         | Inr new_atoms' \<Rightarrow>
             (case build_info metadata_key source_info (map rsplit_base keys) ([], []) of
                Inl e \<Rightarrow> Inl e
              | Inr (new_info_dict, new_metadata_dict) \<Rightarrow>
                  Inr (new_atoms'\<lparr>info := dict_set metadata_key (Dict new_metadata_dict)
                                           new_info_dict,
                                  fix_atoms := ind_fix\<rparr>)))"

definition extract_one ::
  "(nat \<times> ivec3) list list \<Rightarrow> string \<Rightarrow> ('v, 'w) atoms \<Rightarrow> real \<Rightarrow> ndarray \<Rightarrow> bool
     \<Rightarrow> string list \<Rightarrow> vec3 \<Rightarrow> real \<Rightarrow> (string \<times> 'v list) list \<Rightarrow> int
     \<Rightarrow> error + ('v, 'w) atoms" where
  "extract_one nl metadata_key original_atoms rc new_cell extract_cube keys cell_norms
       max_cell_len key_arrays atom_ind =
     (case gather nl original_atoms rc keys max_cell_len key_arrays atom_ind of
        Inl e \<Rightarrow> Inl e
      | Inr sel \<Rightarrow>
          make_atoms metadata_key (info original_atoms) new_cell extract_cube keys
            cell_norms sel)"

subsection \<open>The whole call\<close>

text \<open>\<^verbatim>\<open>atom_inds\<close> is an integer or a list of integers (line 68).\<close>

datatype atom_inds = Single int | Many "int list"

text \<open>The loop of line 81: the first exception ends the call, otherwise one result per index.\<close>

fun for_each :: "('a \<Rightarrow> error + 'b) \<Rightarrow> 'a list \<Rightarrow> error + 'b list" where
  "for_each body [] = Inr []"
| "for_each body (x # xs) =
     (case body x of
        Inl e \<Rightarrow> Inl e
      | Inr y \<Rightarrow> (case for_each body xs of Inl e \<Rightarrow> Inl e | Inr ys \<Rightarrow> Inr (y # ys)))"

definition extract_env ::
  "(nat \<times> ivec3) list list \<Rightarrow> string \<Rightarrow> ('v, 'w) atoms \<Rightarrow> real \<Rightarrow> atom_inds \<Rightarrow> ndarray
     \<Rightarrow> bool \<Rightarrow> string list option \<Rightarrow> error + ('v, 'w) atoms list" where
  "extract_env nl metadata_key original_atoms rc atom_inds new_cell extract_cube
       keys_to_transfer =
     (case cell_shape new_cell of
        Inl e \<Rightarrow> Inl e
      | Inr (cell_norms, max_cell_len) \<Rightarrow>
     (let keys = (case keys_to_transfer of None \<Rightarrow> [] | Some ks \<Rightarrow> ks)
      in case initial_checks (cell original_atoms) rc cell_norms max_cell_len of
        Inl e \<Rightarrow> Inl e
      | Inr u \<Rightarrow>
     (let inds = (case atom_inds of Single i \<Rightarrow> [i] | Many is \<Rightarrow> is)
      in case get_arrays (arrays original_atoms) keys [] of
        Inl e \<Rightarrow> Inl e
      | Inr key_arrays \<Rightarrow>
          for_each (extract_one nl metadata_key original_atoms rc new_cell extract_cube keys
                      cell_norms max_cell_len key_arrays) inds)))"

section \<open>Central atom locator\<close>

definition coords :: "vec3 \<Rightarrow> real list" where
  "coords p = (case p of (x, y, z) \<Rightarrow> [x, y, z])"

text \<open>
  The inner loop of \<^verbatim>\<open>find_central_atom\<close>: \<^verbatim>\<open>atom_found\<close> is set at every coordinate
  and the loop breaks at the first coordinate that differs from \<^verbatim>\<open>half_length\<close>.
\<close>

fun scan_coords :: "real \<Rightarrow> real list \<Rightarrow> bool \<Rightarrow> bool" where
  "scan_coords half_length [] atom_found = atom_found"
| "scan_coords half_length (coord # rest) atom_found =
     (if coord = half_length then scan_coords half_length rest True else False)"

text \<open>
  The outer loop, over \<^verbatim>\<open>enumerate(config.positions)\<close>. Falling off the end of the
  function returns Python's \<^verbatim>\<open>None\<close>.
\<close>

fun scan_atoms :: "real \<Rightarrow> vec3 list \<Rightarrow> nat \<Rightarrow> bool \<Rightarrow> nat option" where
  "scan_atoms half_length [] i atom_found = None"
| "scan_atoms half_length (atom_pos # rest) i atom_found =
     (let found = scan_coords half_length (coords atom_pos) atom_found
      in if found then Some i else scan_atoms half_length rest (Suc i) found)"

definition find_central_atom :: "('v, 'w) atoms \<Rightarrow> real \<Rightarrow> nat option" where
  "find_central_atom config side_size =
     (let half_length = side_size / 2
      in scan_atoms half_length (positions config) 0 False)"

section \<open>Specification-level definitions\<close>

text \<open>
  What a loop that appends \<open>g x\<close> once per occurrence of a key in \<^verbatim>\<open>keys_to_transfer\<close>
  (\<open>c\<close> occurrences) leaves in that key's list after running over \<open>xs\<close>.
\<close>

definition col :: "nat \<Rightarrow> ('a \<Rightarrow> 'b) \<Rightarrow> 'a list \<Rightarrow> 'b list" where
  "col c g xs = concat (map (\<lambda>x. replicate c (g x)) xs)"

text \<open>The position that Python's index \<open>i\<close> names in a sequence, once it is in range.\<close>

definition center_index :: "'a list \<Rightarrow> int \<Rightarrow> nat" where
  "center_index xs i = nat (if i < 0 then int (length xs) + i else i)"

text \<open>
  The displacement of a neighbour entry (index, offset) from the centre atom, as the
  specification words it: neighbour position plus offset times source cell, minus centre
  position.
\<close>

definition displacement :: "vec3 list \<Rightarrow> mat3 \<Rightarrow> int \<Rightarrow> nat \<times> ivec3 \<Rightarrow> vec3" where
  "displacement pos source_cell atom_ind e =
     vsub (vadd (pos ! fst e) (offset_matmul (snd e) source_cell)) (pos ! center_index pos atom_ind)"

text \<open>
  The neighbour entries that the specification's cube filter and sphere filter keep, stated
  on the entries themselves (not on indices into intermediate arrays).
\<close>

definition cube_entries :: "vec3 list \<Rightarrow> mat3 \<Rightarrow> int \<Rightarrow> real \<Rightarrow> (nat \<times> ivec3) list \<Rightarrow> (nat \<times> ivec3) list" where
  "cube_entries pos source_cell atom_ind h nbrs =
     filter (\<lambda>e. in_cube h (displacement pos source_cell atom_ind e)) nbrs"

definition sphere_entries :: "vec3 list \<Rightarrow> mat3 \<Rightarrow> int \<Rightarrow> real \<Rightarrow> real \<Rightarrow> (nat \<times> ivec3) list \<Rightarrow> (nat \<times> ivec3) list" where
  "sphere_entries pos source_cell atom_ind h rc nbrs =
     filter (\<lambda>e. norm3 (displacement pos source_cell atom_ind e) \<le> rc)
       (cube_entries pos source_cell atom_ind h nbrs)"

text \<open>
  The side lengths the validation derives from \<^verbatim>\<open>new_cell\<close>: the entries of a
  3-vector, the row norms of a matrix.
\<close>

definition side_lengths :: "ndarray \<Rightarrow> vec3" where
  "side_lengths new_cell = (case new_cell of Vec3 v \<Rightarrow> v | Mat3 m \<Rightarrow> row_norms m)"

text \<open>
  The condition of the size and cutoff validation, in the specification's words: the largest
  target side exceeds one of the three cell lengths of the source, or \<open>rc\<close> exceeds it, or
  \<open>2 * rc\<close> exceeds it.
\<close>

definition too_small_condition :: "mat3 \<Rightarrow> real \<Rightarrow> ndarray \<Rightarrow> bool" where
  "too_small_condition source_cell rc new_cell =
     (let side = np_max3 (side_lengths new_cell) in
      case row_norms source_cell of (l0, l1, l2) \<Rightarrow>
        side > l0 \<or> side > l1 \<or> side > l2 \<or> rc > side \<or> 2 * rc > side)"

definition is_CellTooSmall :: "error \<Rightarrow> bool" where
  "is_CellTooSmall e = (case e of CellTooSmallError msg \<Rightarrow> True | _ \<Rightarrow> False)"

text \<open>The neighbour entries whose atoms the new structure holds, in order.\<close>

definition emitted_entries ::
  "vec3 list \<Rightarrow> mat3 \<Rightarrow> int \<Rightarrow> real \<Rightarrow> real \<Rightarrow> bool \<Rightarrow> (nat \<times> ivec3) list \<Rightarrow> (nat \<times> ivec3) list" where
  "emitted_entries pos source_cell atom_ind h rc extract_cube nbrs =
     (if extract_cube then cube_entries pos source_cell atom_ind h nbrs
      else sphere_entries pos source_cell atom_ind h rc nbrs)"

text \<open>Lines 49-50 and 68-69: \<^verbatim>\<open>None\<close> stands for no keys, a single integer for a one-element list.\<close>

definition normalize_keys :: "string list option \<Rightarrow> string list" where
  "normalize_keys keys_to_transfer = (case keys_to_transfer of None \<Rightarrow> [] | Some ks \<Rightarrow> ks)"

definition normalize_inds :: "atom_inds \<Rightarrow> int list" where
  "normalize_inds atom_inds = (case atom_inds of Single i \<Rightarrow> [i] | Many is \<Rightarrow> is)"

text \<open>
  A request on which the call is shown to return. The target cell is a 3-vector of equal
  sides that passes the size and cutoff checks; the centre indices are in \<open>[0, N)\<close>; the
  source has one symbol per atom and, for every requested key, an array with one entry per
  atom (as the atomic-structure library guarantees); the neighbour table has one row per atom
  and names atoms of the source; no key is requested twice.
\<close>

definition valid_geometry ::
  "(nat \<times> ivec3) list list \<Rightarrow> ('v, 'w) atoms \<Rightarrow> real \<Rightarrow> int list \<Rightarrow> ndarray \<Rightarrow> string list \<Rightarrow> bool" where
  "valid_geometry nl original_atoms rc inds new_cell keys =
     ((case new_cell of Vec3 v \<Rightarrow> (case v of (a, b, c) \<Rightarrow> a = b \<and> b = c) | Mat3 m \<Rightarrow> False)
      \<and> \<not> too_small_condition (cell original_atoms) rc new_cell
      \<and> length (symbols original_atoms) = length (positions original_atoms)
      \<and> length nl = length (positions original_atoms)
      \<and> list_all (\<lambda>i. 0 \<le> i \<and> i < int (length (positions original_atoms))) inds
      \<and> list_all (list_all (\<lambda>e. fst e < length (positions original_atoms))) nl
      \<and> distinct keys
      \<and> list_all (\<lambda>k. case map_of (arrays original_atoms) k of
                         None \<Rightarrow> False
                       | Some arr \<Rightarrow> length arr = length (positions original_atoms)) keys)"

text \<open>The source's \<^verbatim>\<open>info\<close> holds a dictionary under the reserved key.\<close>

definition has_metadata :: "string \<Rightarrow> (string \<times> 'w info_value) list \<Rightarrow> bool" where
  "has_metadata metadata_key source_info =
     (case map_of source_info metadata_key of Some (Dict md) \<Rightarrow> True | _ \<Rightarrow> False)"

text \<open>When keys are requested the nested metadata dictionary has to be there as well.\<close>

definition valid_request ::
  "(nat \<times> ivec3) list list \<Rightarrow> string \<Rightarrow> ('v, 'w) atoms \<Rightarrow> real \<Rightarrow> int list \<Rightarrow> ndarray
     \<Rightarrow> string list \<Rightarrow> bool" where
  "valid_request nl metadata_key original_atoms rc inds new_cell keys =
     (valid_geometry nl original_atoms rc inds new_cell keys
      \<and> (keys = [] \<or> has_metadata metadata_key (info original_atoms)))"

section \<open>A concrete scenario\<close>

text \<open>
  The scenario of the specification: a cubic source cell of side 10 with a single atom at
  the origin. With a target side of 6 every atom has a uniform cutoff of 3, so the only
  neighbour entry of atom 0 within reach is the atom itself with offset zero (its nearest
  periodic images are 10 away).
\<close>

definition scenario_source :: "(nat, nat) atoms" where
  "scenario_source =
     \<lparr>positions = [(0, 0, 0)], symbols = [''Cu''],
      cell = ((10, 0, 0), (0, 10, 0), (0, 0, 10)), pbc = True,
      arrays = [(''charges_value'', [7])],
      info = [(''charges_note'', Plain 1), (''other'', Plain 2),
              (''meta'', Dict [(''charges'', 5), (''charges_extra'', 6)])],
      fix_atoms = []\<rparr>"

definition scenario_nl :: "(nat \<times> ivec3) list list" where
  "scenario_nl = [[(0, (0, 0, 0))]]"

text \<open>
  Three atoms on a line in the same cell, at 0, 1 and 2.5 along the first axis. With a target
  side of 6 and \<open>rc = 2\<close> all three are within reach of each other and no periodic image
  is; seen from atom 0, the atom at 2.5 lies in the cube and outside the sphere.
\<close>

definition chain_source :: "(nat, nat) atoms" where
  "chain_source =
     \<lparr>positions = [(0, 0, 0), (1, 0, 0), (5 / 2, 0, 0)], symbols = [''Cu'', ''Au'', ''Ag''],
      cell = ((10, 0, 0), (0, 10, 0), (0, 0, 10)), pbc = True,
      arrays = [(''charges_value'', [7, 8, 9])],
      info = [(''charges_note'', Plain 1), (''other'', Plain 2),
              (''meta'', Dict [(''charges'', 5), (''charges_extra'', 6)])],
      fix_atoms = []\<rparr>"

definition chain_nl :: "(nat \<times> ivec3) list list" where
  "chain_nl = replicate 3 [(0, (0, 0, 0)), (1, (0, 0, 0)), (2, (0, 0, 0))]"

text \<open>
  Two atoms at the same position: each is a neighbour of the other at distance zero.
\<close>

definition coincident_source :: "(nat, nat) atoms" where
  "coincident_source =
     \<lparr>positions = [(0, 0, 0), (0, 0, 0)], symbols = [''Cu'', ''Au''],
      cell = ((10, 0, 0), (0, 10, 0), (0, 0, 10)), pbc = True,
      arrays = [], info = [], fix_atoms = []\<rparr>"

definition coincident_nl :: "(nat \<times> ivec3) list list" where
  "coincident_nl = replicate 2 [(0, (0, 0, 0)), (1, (0, 0, 0))]"

section \<open>Properties of the central atom locator\<close>

lemma scan_coords_coords:
  "scan_coords h (coords p) b \<longleftrightarrow> p = (h, h, h)"
  by (cases p) (auto simp: coords_def)

lemma scan_atoms_first:
  "scan_atoms h ps i b =
     (if (h, h, h) \<in> set ps
      then Some (i + length (takeWhile (\<lambda>p. p \<noteq> (h, h, h)) ps)) else None)"
  by (induction ps arbitrary: i b) (auto simp: scan_coords_coords Let_def)

lemma takeWhile_neq_index:
  "c \<in> set ps \<Longrightarrow>
     length (takeWhile (\<lambda>p. p \<noteq> c) ps) < length ps
       \<and> ps ! length (takeWhile (\<lambda>p. p \<noteq> c) ps) = c"
  by (induction ps) auto

text \<open>
  C9. When no atom has all three coordinates equal to \<open>side_size / 2\<close>, the locator returns
  \<open>None\<close> (no exception is a branch of the model); and an index it returns is in range and
  names an atom whose three coordinates all equal \<open>side_size / 2\<close>.
\<close>

theorem find_central_atom_none_or_central:
  "((side_size / 2, side_size / 2, side_size / 2) \<notin> set (positions config)
      \<longrightarrow> find_central_atom config side_size = None)
   \<and> (\<forall>i. find_central_atom config side_size = Some i
      \<longrightarrow> i < length (positions config)
          \<and> positions config ! i = (side_size / 2, side_size / 2, side_size / 2))"
  by (auto simp: find_central_atom_def Let_def scan_atoms_first takeWhile_neq_index split: if_splits)

theorem find_central_atom_none_or_central_witness:
  "(6 / 2, 6 / 2, 6 / 2) \<notin> set (positions scenario_source)
   \<and> find_central_atom scenario_source 6 = None
   \<and> find_central_atom (scenario_source\<lparr>positions := [(1, 3, 3), (3, 3, 3)]\<rparr>) 6 = Some 1
   \<and> 1 < length (positions (scenario_source\<lparr>positions := [(1, 3, 3), (3, 3, 3)]\<rparr>))
   \<and> positions (scenario_source\<lparr>positions := [(1, 3, 3), (3, 3, 3)]\<rparr>) ! 1 = (6 / 2, 6 / 2, 6 / 2)"
proof -
  have h: "(6 / 2, 6 / 2, 6 / 2) \<notin> set (positions scenario_source)"
    by (simp add: scenario_source_def)
  have s: "find_central_atom (scenario_source\<lparr>positions := [(1, 3, 3), (3, 3, 3)]\<rparr>) 6 = Some 1"
    by (simp add: find_central_atom_def coords_def)
  from find_central_atom_none_or_central [of 6 scenario_source]
    find_central_atom_none_or_central [of 6 "scenario_source\<lparr>positions := [(1, 3, 3), (3, 3, 3)]\<rparr>"]
    h s
  show ?thesis by blast
qed

section \<open>Dictionaries and the loops over keys\<close>

lemma map_of_dict_set: "map_of (dict_set k v d) = (map_of d)(k \<mapsto> v)"
  by (induction d) (auto simp: fun_eq_iff)

lemma keys_dict_set:
  "map fst (dict_set k v d) = (if k \<in> set (map fst d) then map fst d else map fst d @ [k])"
  by (induction d) force+

lemma distinct_dict_set: "distinct (map fst d) \<Longrightarrow> distinct (map fst (dict_set k v d))"
  by (simp add: keys_dict_set)

lemma py_index_nat: "py_index xs (int i) = (if i < length xs then Inr (xs ! i) else Inl IndexError)"
  by (simp add: py_index_def)

lemma map_of_empty_lists:
  "map_of (empty_lists keys acc) k = (if k \<in> set keys then Some [] else map_of acc k)"
  by (induction keys arbitrary: acc) (auto simp: map_of_dict_set)

lemma distinct_empty_lists:
  "distinct (map fst acc) \<Longrightarrow> distinct (map fst (empty_lists keys acc))"
  by (induction keys arbitrary: acc) (auto simp: distinct_dict_set)

lemma get_arrays_Inr:
  "get_arrays source keys acc = Inr key_arrays \<Longrightarrow>
     map_of key_arrays k = (if k \<in> set keys then map_of source k else map_of acc k)
       \<and> (k \<in> set keys \<longrightarrow> map_of source k \<noteq> None)"
  by (induction keys arbitrary: acc)
     (auto simp: dict_get_def map_of_dict_set split: option.splits if_splits)

lemma get_arrays_ok:
  "\<forall>k \<in> set keys. map_of source k \<noteq> None \<Longrightarrow> \<exists>key_arrays. get_arrays source keys acc = Inr key_arrays"
  by (induction keys arbitrary: acc) (auto simp: dict_get_def split: option.splits)

lemma col_simps: "col c g [] = []" "col c g (x # xs) = replicate c (g x) @ col c g xs"
  "col c g (xs @ ys) = col c g xs @ col c g ys"
  by (simp_all add: col_def)

lemma col_one: "col (Suc 0) g xs = map g xs"
  by (induction xs) (simp_all add: col_def)

lemma length_col: "length (col c g xs) = c * length xs"
  by (induction xs) (simp_all add: col_def)

lemma append_arrays_Inr:
  "append_arrays source i keys target = Inr target' \<Longrightarrow>
     map fst target' = map fst target
     \<and> map_of target' k =
         map_option (\<lambda>l. l @ replicate (count_list keys k) (the (map_of source k) ! i))
           (map_of target k)"
proof (induction keys arbitrary: target)
  case Nil
  then show ?case by (simp add: option.map_ident)
next
  case (Cons key keys)
  from Cons.prems obtain collected arr where
    t: "map_of target key = Some collected" and s: "map_of source key = Some arr"
    and i: "i < length arr"
    and rest: "append_arrays source i keys (dict_set key (collected @ [arr ! i]) target) = Inr target'"
    by (auto simp: dict_get_def py_index_nat split: option.splits sum.splits if_splits)
  from t have mem: "key \<in> set (map fst target)"
    by (metis map_of_eq_None_iff option.distinct(1) set_map)
  note IH = Cons.IH [OF rest]
  show ?case
  proof (cases "k = key")
    case True
    then show ?thesis using IH t s mem
      by (simp add: map_of_dict_set keys_dict_set replicate_append_same)
  next
    case False
    then show ?thesis using IH mem
      by (simp add: map_of_dict_set keys_dict_set)
  qed
qed

lemma append_arrays_ok:
  "\<forall>k \<in> set keys. map_of target k \<noteq> None \<and> (\<exists>arr. map_of source k = Some arr \<and> i < length arr)
     \<Longrightarrow> \<exists>target'. append_arrays source i keys target = Inr target'"
proof (induction keys arbitrary: target)
  case Nil
  then show ?case by simp
next
  case (Cons key keys)
  then obtain collected arr where
    t: "map_of target key = Some collected" and s: "map_of source key = Some arr"
    and i: "i < length arr" by auto
  have "\<forall>k \<in> set keys. map_of (dict_set key (collected @ [arr ! i]) target) k \<noteq> None
       \<and> (\<exists>arr. map_of source k = Some arr \<and> i < length arr)"
    using Cons.prems by (simp add: map_of_dict_set)
  from Cons.IH [OF this] show ?case using t s i
    by (simp add: dict_get_def py_index_nat)
qed

section \<open>The neighbour loop and the index selections\<close>

lemma py_index_Inr:
  "py_index xs i = Inr x \<Longrightarrow> x = xs ! center_index xs i \<and> center_index xs i < length xs"
  by (auto simp: py_index_def center_index_def split: if_splits)

lemma map_option_append_comp:
  "map_option (\<lambda>l. l @ b) (map_option (\<lambda>l. l @ a) m) = map_option (\<lambda>l. l @ a @ b) m"
  by (cases m) simp_all

lemma collect_neighbors_Inr:
  "collect_neighbors pos syms source_cell atom_ind key_arrays keys nbrs (d0, s0, a0) = Inr (d, s, a)
   \<Longrightarrow> d = d0 @ map (displacement pos source_cell atom_ind) nbrs
       \<and> s = s0 @ map (\<lambda>e. syms ! fst e) nbrs
       \<and> map fst a = map fst a0
       \<and> (\<forall>k. map_of a k =
            map_option (\<lambda>l. l @ col (count_list keys k) (\<lambda>e. the (map_of key_arrays k) ! fst e) nbrs)
              (map_of a0 k))"
proof (induction nbrs arbitrary: d0 s0 a0)
  case Nil
  then show ?case by (simp add: col_simps option.map_ident)
next
  case (Cons e nbrs)
  obtain i offset where e: "e = (i, offset)" by (cases e)
  from Cons.prems e obtain pos_i pos_center symbol a1 where
    pi: "py_index pos (int i) = Inr pos_i" and pc: "py_index pos atom_ind = Inr pos_center"
    and sy: "py_index syms (int i) = Inr symbol"
    and ap: "append_arrays key_arrays i keys a0 = Inr a1"
    and rest: "collect_neighbors pos syms source_cell atom_ind key_arrays keys nbrs
        (d0 @ [vsub (vadd pos_i (offset_matmul offset source_cell)) pos_center], s0 @ [symbol], a1)
        = Inr (d, s, a)"
    by (auto split: sum.splits)
  from pi have pi': "pos_i = pos ! i" by (simp add: py_index_nat split: if_splits)
  from sy have sy': "symbol = syms ! i" by (simp add: py_index_nat split: if_splits)
  from pc have pc': "pos_center = pos ! center_index pos atom_ind" by (simp add: py_index_Inr)
  note IH = Cons.IH [OF rest]
  note A = append_arrays_Inr [OF ap]
  show ?case using IH A
    by (simp add: e pi' sy' pc' displacement_def col_simps map_option_append_comp)
qed

lemma select_entries_Inr:
  "select_entries from_symbols from_arrays keys ind (s0, a0) = Inr (s, a)
   \<Longrightarrow> s = s0 @ map (\<lambda>i. from_symbols ! i) ind
       \<and> map fst a = map fst a0
       \<and> (\<forall>k. map_of a k =
            map_option (\<lambda>l. l @ col (count_list keys k) (\<lambda>i. the (map_of from_arrays k) ! i) ind)
              (map_of a0 k))"
proof (induction ind arbitrary: s0 a0)
  case Nil
  then show ?case by (simp add: col_simps option.map_ident)
next
  case (Cons i ind)
  from Cons.prems obtain symbol a1 where
    sy: "py_index from_symbols (int i) = Inr symbol"
    and ap: "append_arrays from_arrays i keys a0 = Inr a1"
    and rest: "select_entries from_symbols from_arrays keys ind (s0 @ [symbol], a1) = Inr (s, a)"
    by (auto split: sum.splits)
  from sy have sy': "symbol = from_symbols ! i" by (simp add: py_index_nat split: if_splits)
  note IH = Cons.IH [OF rest]
  note A = append_arrays_Inr [OF ap]
  show ?case using IH A
    by (simp add: sy' col_simps map_option_append_comp)
qed

lemma take_rows_np_where: "take_rows xs (np_where P xs) = filter P xs"
proof -
  have "filter P (map ((!) xs) [0..<length xs]) = map ((!) xs) (filter (P \<circ> (!) xs) [0..<length xs])"
    by (simp only: filter_map)
  then show ?thesis
    by (simp add: take_rows_def np_where_def map_nth comp_def)
qed

lemma take_rows_map_np_where:
  "take_rows (map g xs) (np_where P (map d xs)) = map g (filter (\<lambda>x. P (d x)) xs)"
proof -
  have a: "np_where P (map d xs) = np_where (\<lambda>x. P (d x)) xs"
    unfolding np_where_def by (rule filter_cong) auto
  have b: "take_rows (map g xs) (np_where (\<lambda>x. P (d x)) xs) = map g (take_rows xs (np_where (\<lambda>x. P (d x)) xs))"
    by (simp add: take_rows_def np_where_def)
  show ?thesis by (simp only: a b take_rows_np_where)
qed

lemma np_where_bound: "i \<in> set (np_where P xs) \<Longrightarrow> i < length xs"
  by (simp add: np_where_def)

lemma set_arrays_Inr:
  "set_arrays new_arrays a = Inr a' \<Longrightarrow>
     positions a' = positions a \<and> symbols a' = symbols a \<and> cell a' = cell a \<and> pbc a' = pbc a
     \<and> info a' = info a \<and> fix_atoms a' = fix_atoms a
     \<and> (\<forall>(k, arr) \<in> set new_arrays. length arr = length (positions a))"
proof (induction new_arrays arbitrary: a)
  case Nil
  then show ?case by simp
next
  case (Cons p new_arrays)
  obtain key arr where p: "p = (key, arr)" by (cases p)
  from Cons.prems p have len: "length arr = length (positions a)"
    and rest: "set_arrays new_arrays (a\<lparr>arrays := dict_set key arr (arrays a)\<rparr>) = Inr a'"
    by (auto split: if_splits)
  from Cons.IH [OF rest] len show ?case by (simp add: p)
qed

lemma set_arrays_arrays:
  "set_arrays new_arrays a = Inr a' \<Longrightarrow> distinct (map fst new_arrays) \<Longrightarrow>
     map_of (arrays a') k = (case map_of new_arrays k of None \<Rightarrow> map_of (arrays a) k | Some arr \<Rightarrow> Some arr)"
proof (induction new_arrays arbitrary: a)
  case Nil
  then show ?case by simp
next
  case (Cons p new_arrays)
  obtain key arr where p: "p = (key, arr)" by (cases p)
  from Cons.prems p have
    rest: "set_arrays new_arrays (a\<lparr>arrays := dict_set key arr (arrays a)\<rparr>) = Inr a'"
    and d: "distinct (map fst new_arrays)" and nk: "key \<notin> fst ` set new_arrays"
    by (auto split: if_splits)
  from nk have none: "map_of new_arrays key = None"
    by (simp add: map_of_eq_None_iff)
  from Cons.IH [OF rest d] none show ?case
    by (auto simp: p map_of_dict_set split: option.splits)
qed

lemma set_arrays_ok:
  "\<forall>(k, arr) \<in> set new_arrays. length arr = length (positions a) \<Longrightarrow>
     \<exists>a'. set_arrays new_arrays a = Inr a'"
  by (induction new_arrays arbitrary: a) auto

section \<open>The selection of one centre\<close>

lemma gather_Inr:
  assumes g: "gather nl original_atoms rc keys max_cell_len key_arrays atom_ind = Inr sel"
  defines "nbrs \<equiv> nl ! center_index nl atom_ind"
  defines "disp \<equiv> displacement (positions original_atoms) (cell original_atoms) atom_ind"
  defines "ce \<equiv> cube_entries (positions original_atoms) (cell original_atoms) atom_ind (max_cell_len / 2) nbrs"
  defines "se \<equiv> sphere_entries (positions original_atoms) (cell original_atoms) atom_ind (max_cell_len / 2) rc nbrs"
  shows "center_index nl atom_ind < length nl"
    and "cube_disp sel = map disp ce"
    and "cube_symbols sel = map (\<lambda>e. symbols original_atoms ! fst e) ce"
    and "ind_in_rc sel = np_where (\<lambda>d. norm3 d \<le> rc) (cube_disp sel)"
    and "sphere_disp sel = map disp se"
    and "sphere_symbols sel = map (\<lambda>e. symbols original_atoms ! fst e) se"
    and "distinct (map fst (cube_arrays sel))"
    and "distinct (map fst (sphere_arrays sel))"
    and "k \<in> set keys \<Longrightarrow> \<exists>arr. map_of (cube_arrays sel) k = Some arr
            \<and> length arr = count_list keys k * length ce
            \<and> (count_list keys k = 1 \<longrightarrow> arr = map (\<lambda>e. the (map_of key_arrays k) ! fst e) ce)"
    and "k \<in> set keys \<Longrightarrow> \<exists>arr. map_of (sphere_arrays sel) k = Some arr
            \<and> length arr = count_list keys k * length se
            \<and> (count_list keys k = 1 \<longrightarrow> arr = map (\<lambda>e. the (map_of key_arrays k) ! fst e) se)"
    and "k \<notin> set keys \<Longrightarrow> map_of (cube_arrays sel) k = None \<and> map_of (sphere_arrays sel) k = None"
proof -
  let ?pos = "positions original_atoms" and ?syms = "symbols original_atoms"
  let ?P = "in_cube (max_cell_len / 2)" and ?Q = "\<lambda>d. norm3 d \<le> rc"
  from g obtain nb where nb: "py_index nl atom_ind = Inr nb"
    by (auto simp: gather_def split: sum.splits)
  from py_index_Inr [OF nb] have nb_eq: "nb = nbrs" and ci: "center_index nl atom_ind < length nl"
    by (simp_all add: nbrs_def)
  from g nb obtain nd ns na where
    cn: "collect_neighbors ?pos ?syms (cell original_atoms) atom_ind key_arrays keys nbrs
           ([], [], empty_lists keys []) = Inr (nd, ns, na)"
    by (auto simp: gather_def nb_eq split: sum.splits)
  from g nb cn obtain cs ca where
    s1: "select_entries ns na keys (np_where ?P nd) ([], empty_lists keys []) = Inr (cs, ca)"
    by (auto simp: gather_def nb_eq Let_def split: sum.splits)
  from g nb cn s1 obtain ss sa where
    s2: "select_entries cs ca keys (np_where ?Q (take_rows nd (np_where ?P nd)))
           ([], empty_lists keys []) = Inr (ss, sa)"
    by (auto simp: gather_def nb_eq Let_def split: sum.splits)
  from g nb cn s1 s2 have sel:
    "sel = \<lparr>cube_disp = take_rows nd (np_where ?P nd), cube_symbols = cs, cube_arrays = ca,
            ind_in_rc = np_where ?Q (take_rows nd (np_where ?P nd)),
            sphere_disp = take_rows (take_rows nd (np_where ?P nd))
                            (np_where ?Q (take_rows nd (np_where ?P nd))),
            sphere_symbols = ss, sphere_arrays = sa\<rparr>"
    by (auto simp: gather_def nb_eq Let_def split: sum.splits)
  note C = collect_neighbors_Inr [OF cn]
  note S1 = select_entries_Inr [OF s1]
  note S2 = select_entries_Inr [OF s2]
  have nd: "nd = map disp nbrs" using C by (simp add: disp_def)
  have ns: "ns = map (\<lambda>e. ?syms ! fst e) nbrs" using C by simp
  have cd: "take_rows nd (np_where ?P nd) = map disp ce"
    by (simp add: nd take_rows_map_np_where ce_def cube_entries_def disp_def)
  have sd: "take_rows (map disp ce) (np_where ?Q (map disp ce)) = map disp se"
    by (simp add: take_rows_map_np_where se_def sphere_entries_def ce_def disp_def)
  show "center_index nl atom_ind < length nl" by (rule ci)
  show "cube_disp sel = map disp ce" by (simp add: sel cd)
  show "ind_in_rc sel = np_where ?Q (cube_disp sel)" by (simp add: sel)
  show "sphere_disp sel = map disp se" by (simp add: sel cd sd)
  have "cs = take_rows ns (np_where ?P nd)"
    using S1 by (simp add: take_rows_def)
  then have cs: "cs = map (\<lambda>e. ?syms ! fst e) ce"
    by (simp only: ns nd take_rows_map_np_where ce_def cube_entries_def disp_def)
  show "cube_symbols sel = map (\<lambda>e. ?syms ! fst e) ce" by (simp add: sel cs)
  have "ss = take_rows cs (np_where ?Q (take_rows nd (np_where ?P nd)))"
    using S2 by (simp add: take_rows_def)
  then have "ss = take_rows (map (\<lambda>e. ?syms ! fst e) ce) (np_where ?Q (map disp ce))"
    by (simp only: cd cs)
  then have ss: "ss = map (\<lambda>e. ?syms ! fst e) se"
    by (simp only: take_rows_map_np_where se_def sphere_entries_def ce_def disp_def)
  show "sphere_symbols sel = map (\<lambda>e. ?syms ! fst e) se" by (simp add: sel ss)
  have d0: "distinct (map fst (empty_lists keys ([] :: (string \<times> 'a list) list)))"
    by (rule distinct_empty_lists) simp
  show "distinct (map fst (cube_arrays sel))" using S1 d0 by (simp add: sel)
  show "distinct (map fst (sphere_arrays sel))" using S2 d0 by (simp add: sel)
  have na: "map_of na k = (if k \<in> set keys
      then Some (col (count_list keys k) (\<lambda>e. the (map_of key_arrays k) ! fst e) nbrs) else None)" for k
    using C by (simp add: map_of_empty_lists)
  have ca: "map_of ca k = (if k \<in> set keys
      then Some (col (count_list keys k) (\<lambda>i. the (map_of na k) ! i) (np_where ?P nd)) else None)" for k
    using S1 by (simp add: map_of_empty_lists)
  have sa: "map_of sa k = (if k \<in> set keys
      then Some (col (count_list keys k) (\<lambda>i. the (map_of ca k) ! i) (np_where ?Q (map disp ce))) else None)" for k
    using S2 unfolding cd by (simp add: map_of_empty_lists)
  have lce: "length (np_where ?P nd) = length ce"
    using arg_cong [OF cd, of length] by (simp add: take_rows_def)
  have lse: "length (np_where ?Q (map disp ce)) = length se"
    using arg_cong [OF sd, of length] by (simp add: take_rows_def)
  show "k \<notin> set keys \<Longrightarrow> map_of (cube_arrays sel) k = None \<and> map_of (sphere_arrays sel) k = None"
    by (simp add: sel ca sa)
  have ca1: "map_of ca k = Some (map (\<lambda>e. the (map_of key_arrays k) ! fst e) ce)"
    if "k \<in> set keys" "count_list keys k = 1" for k
  proof -
    have "map_of ca k = Some (take_rows (map (\<lambda>e. the (map_of key_arrays k) ! fst e) nbrs)
             (np_where ?P (map disp nbrs)))"
      using that by (simp add: ca na col_one nd take_rows_def)
    then show ?thesis
      by (simp only: take_rows_map_np_where ce_def cube_entries_def disp_def)
  qed
  show "\<exists>arr. map_of (cube_arrays sel) k = Some arr
            \<and> length arr = count_list keys k * length ce
            \<and> (count_list keys k = 1 \<longrightarrow> arr = map (\<lambda>e. the (map_of key_arrays k) ! fst e) ce)"
    if "k \<in> set keys"
    using that ca1 [OF that] by (auto simp: sel ca length_col lce)
  have sa1: "map_of sa k = Some (map (\<lambda>e. the (map_of key_arrays k) ! fst e) se)"
    if "k \<in> set keys" "count_list keys k = 1" for k
  proof -
    have "map_of sa k = Some (take_rows (map (\<lambda>e. the (map_of key_arrays k) ! fst e) ce)
             (np_where ?Q (map disp ce)))"
      using that by (simp add: sa ca1 col_one take_rows_def)
    then show ?thesis
      by (simp only: take_rows_map_np_where se_def sphere_entries_def ce_def disp_def)
  qed
  show "\<exists>arr. map_of (sphere_arrays sel) k = Some arr
            \<and> length arr = count_list keys k * length se
            \<and> (count_list keys k = 1 \<longrightarrow> arr = map (\<lambda>e. the (map_of key_arrays k) ! fst e) se)"
    if "k \<in> set keys"
    using that sa1 [OF that] by (auto simp: sel sa length_col lse)
qed

section \<open>Success of the loops and the call as a list of results\<close>

lemma for_each_map: "for_each body xs = Inr ys \<longleftrightarrow> map body xs = map Inr ys"
proof (induction xs arbitrary: ys)
  case Nil
  show ?case by auto
next
  case (Cons x xs)
  show ?case
    by (cases ys) (auto simp: Cons.IH [symmetric] split: sum.splits)
qed

lemma for_each_Inr:
  "for_each body xs = Inr ys \<longleftrightarrow>
     length ys = length xs \<and> (\<forall>j < length xs. body (xs ! j) = Inr (ys ! j))"
  unfolding for_each_map by (auto simp: list_eq_iff_nth_eq)

lemma for_each_ok:
  "\<forall>x \<in> set xs. \<exists>y. body x = Inr y \<Longrightarrow> \<exists>ys. for_each body xs = Inr ys"
  by (induction xs) auto

lemma append_arrays_bounds:
  "append_arrays source i keys target = Inr target' \<Longrightarrow> k \<in> set keys \<Longrightarrow>
     \<exists>arr. map_of source k = Some arr \<and> i < length arr"
  by (induction keys arbitrary: target)
     (auto simp: dict_get_def py_index_nat split: option.splits sum.splits if_splits)

lemma collect_neighbors_bounds:
  "collect_neighbors pos syms source_cell atom_ind key_arrays keys nbrs st = Inr st'
     \<Longrightarrow> e \<in> set nbrs
     \<Longrightarrow> fst e < length pos \<and> fst e < length syms
         \<and> (\<forall>k \<in> set keys. \<exists>arr. map_of key_arrays k = Some arr \<and> fst e < length arr)"
proof (induction nbrs arbitrary: st)
  case Nil
  then show ?case by simp
next
  case (Cons n nbrs)
  obtain i offset where n: "n = (i, offset)" by (cases n)
  obtain d s a where st: "st = (d, s, a)" by (cases st rule: prod_cases3)
  from Cons.prems(1) obtain pos_i pos_center symbol a1 st1 where
    pi: "py_index pos (int i) = Inr pos_i"
    and sy: "py_index syms (int i) = Inr symbol"
    and ap: "append_arrays key_arrays i keys a = Inr a1"
    and rest: "collect_neighbors pos syms source_cell atom_ind key_arrays keys nbrs st1 = Inr st'"
    unfolding n st by (auto split: sum.splits)
  show ?case
  proof (cases "e = n")
    case True
    with pi sy append_arrays_bounds [OF ap] show ?thesis
      by (auto simp: n py_index_nat split: if_splits)
  next
    case False
    with Cons.prems(2) have "e \<in> set nbrs" by simp
    from Cons.IH [OF rest this] show ?thesis .
  qed
qed

lemma py_index_ok: "0 \<le> i \<Longrightarrow> i < int (length xs) \<Longrightarrow> py_index xs i = Inr (xs ! nat i)"
  by (simp add: py_index_def)

lemma collect_neighbors_ok:
  assumes "0 \<le> atom_ind" "atom_ind < int (length pos)"
    and "\<forall>e \<in> set nbrs. fst e < length pos \<and> fst e < length syms
           \<and> (\<forall>k \<in> set keys. \<exists>arr. map_of key_arrays k = Some arr \<and> fst e < length arr)"
    and "\<forall>k \<in> set keys. map_of a k \<noteq> None"
  shows "\<exists>st'. collect_neighbors pos syms source_cell atom_ind key_arrays keys nbrs (d, s, a) = Inr st'"
  using assms(3,4)
proof (induction nbrs arbitrary: d s a)
  case Nil
  then show ?case by simp
next
  case (Cons n nbrs)
  obtain i offset where n: "n = (i, offset)" by (cases n)
  from Cons.prems(1) have i: "i < length pos" "i < length syms"
    and ka: "\<forall>k \<in> set keys. \<exists>arr. map_of key_arrays k = Some arr \<and> i < length arr"
    by (simp_all add: n)
  from append_arrays_ok [of keys a key_arrays i] ka Cons.prems(2)
  obtain a1 where ap: "append_arrays key_arrays i keys a = Inr a1" by auto
  from append_arrays_Inr [OF ap] Cons.prems(2)
  have a1: "\<forall>k \<in> set keys. map_of a1 k \<noteq> None" by auto
  from Cons.prems(1) have rest: "\<forall>e \<in> set nbrs. fst e < length pos \<and> fst e < length syms
           \<and> (\<forall>k \<in> set keys. \<exists>arr. map_of key_arrays k = Some arr \<and> fst e < length arr)"
    by simp
  from Cons.IH [OF rest a1] show ?case
    using i ap assms(1,2) by (simp add: n py_index_nat py_index_ok)
qed

lemma select_entries_ok:
  assumes "\<forall>i \<in> set ind. i < length from_symbols
           \<and> (\<forall>k \<in> set keys. \<exists>arr. map_of from_arrays k = Some arr \<and> i < length arr)"
    and "\<forall>k \<in> set keys. map_of a k \<noteq> None"
  shows "\<exists>st'. select_entries from_symbols from_arrays keys ind (s, a) = Inr st'"
  using assms
proof (induction ind arbitrary: s a)
  case Nil
  then show ?case by simp
next
  case (Cons i ind)
  from Cons.prems(1) have i: "i < length from_symbols"
    and fa: "\<forall>k \<in> set keys. \<exists>arr. map_of from_arrays k = Some arr \<and> i < length arr"
    by simp_all
  from append_arrays_ok [of keys a from_arrays i] fa Cons.prems(2)
  obtain a1 where ap: "append_arrays from_arrays i keys a = Inr a1" by auto
  from append_arrays_Inr [OF ap] Cons.prems(2)
  have a1: "\<forall>k \<in> set keys. map_of a1 k \<noteq> None" by auto
  from Cons.prems(1) have rest: "\<forall>i \<in> set ind. i < length from_symbols
           \<and> (\<forall>k \<in> set keys. \<exists>arr. map_of from_arrays k = Some arr \<and> i < length arr)"
    by simp
  from Cons.IH [OF rest a1] show ?case
    using i ap by (simp add: py_index_nat)
qed

lemma count_list_distinct: "distinct xs \<Longrightarrow> x \<in> set xs \<Longrightarrow> count_list xs x = Suc 0"
  by (induction xs) auto

lemma gather_ok:
  assumes ind: "0 \<le> atom_ind" "atom_ind < int (length nl)" "atom_ind < int (length (positions original_atoms))"
    and nbrs: "\<forall>e \<in> set (nl ! nat atom_ind). fst e < length (positions original_atoms)
         \<and> fst e < length (symbols original_atoms)
         \<and> (\<forall>k \<in> set keys. \<exists>arr. map_of key_arrays k = Some arr \<and> fst e < length arr)"
  shows "\<exists>sel. gather nl original_atoms rc keys max_cell_len key_arrays atom_ind = Inr sel"
proof -
  let ?pos = "positions original_atoms" and ?syms = "symbols original_atoms"
  let ?P = "in_cube (max_cell_len / 2)" and ?Q = "\<lambda>d. norm3 d \<le> rc"
  let ?e = "empty_lists keys ([] :: (string \<times> 'a list) list)"
  have nb: "py_index nl atom_ind = Inr (nl ! nat atom_ind)"
    using ind by (simp add: py_index_ok)
  have e: "\<forall>k \<in> set keys. map_of ?e k \<noteq> None"
    by (simp add: map_of_empty_lists)
  from collect_neighbors_ok [OF ind(1) ind(3) nbrs e]
  obtain nd ns na where
    cn: "collect_neighbors ?pos ?syms (cell original_atoms) atom_ind key_arrays keys
           (nl ! nat atom_ind) ([], [], ?e) = Inr (nd, ns, na)"
    by (metis prod_cases3)
  note C = collect_neighbors_Inr [OF cn]
  have lnd: "length nd = length (nl ! nat atom_ind)" and lns: "length ns = length (nl ! nat atom_ind)"
    using C by simp_all
  have na: "\<forall>k \<in> set keys. \<exists>arr. map_of na k = Some arr \<and> length (nl ! nat atom_ind) \<le> length arr"
  proof
    fix k assume k: "k \<in> set keys"
    then have "0 < count_list keys k" by (simp add: count_list_0_iff zero_less_iff_neq_zero)
    then show "\<exists>arr. map_of na k = Some arr \<and> length (nl ! nat atom_ind) \<le> length arr"
      using C k by (simp add: map_of_empty_lists length_col)
  qed
  have "\<forall>i \<in> set (np_where ?P nd). i < length ns
           \<and> (\<forall>k \<in> set keys. \<exists>arr. map_of na k = Some arr \<and> i < length arr)"
    using na np_where_bound [of _ ?P nd] lnd lns by fastforce
  from select_entries_ok [OF this e]
  obtain cs ca where
    s1: "select_entries ns na keys (np_where ?P nd) ([], ?e) = Inr (cs, ca)"
    by (metis surj_pair)
  note S1 = select_entries_Inr [OF s1]
  have lcs: "length cs = length (np_where ?P nd)" using S1 by simp
  have ca: "\<forall>k \<in> set keys. \<exists>arr. map_of ca k = Some arr \<and> length (np_where ?P nd) \<le> length arr"
  proof
    fix k assume k: "k \<in> set keys"
    then have "0 < count_list keys k" by (simp add: count_list_0_iff zero_less_iff_neq_zero)
    then show "\<exists>arr. map_of ca k = Some arr \<and> length (np_where ?P nd) \<le> length arr"
      using S1 k by (simp add: map_of_empty_lists length_col)
  qed
  have "\<forall>i \<in> set (np_where ?Q (take_rows nd (np_where ?P nd))). i < length cs
           \<and> (\<forall>k \<in> set keys. \<exists>arr. map_of ca k = Some arr \<and> i < length arr)"
    using ca np_where_bound [of _ ?Q "take_rows nd (np_where ?P nd)"] lcs
    by (fastforce simp: take_rows_def)
  from select_entries_ok [OF this e]
  obtain ss sa where
    s2: "select_entries cs ca keys (np_where ?Q (take_rows nd (np_where ?P nd))) ([], ?e)
           = Inr (ss, sa)"
    by (metis surj_pair)
  show ?thesis
    by (simp add: gather_def nb cn s1 s2 Let_def)
qed

section \<open>The metadata dictionaries and the new structure\<close>

lemma map_of_scan_info:
  "map_of (scan_info output_key source_info ks new_info_dict) k =
     (if k \<in> set ks \<and> str_contains output_key k \<and> map_of source_info k \<noteq> None
      then map_of source_info k else map_of new_info_dict k)"
  by (induction ks arbitrary: new_info_dict)
     (auto simp: map_of_dict_set split: option.splits)

lemma map_of_scan_info_keys:
  "map_of (scan_info output_key source_info (map fst source_info) new_info_dict) k =
     (if str_contains output_key k \<and> map_of source_info k \<noteq> None
      then map_of source_info k else map_of new_info_dict k)"
  unfolding map_of_scan_info using map_of_eq_None_iff [of source_info k] by auto

lemma build_info_Inr:
  "build_info metadata_key source_info output_keys (ni, nm) = Inr (ni', nm') \<Longrightarrow>
     (\<forall>k. map_of ni' k =
        (if (\<exists>ok \<in> set output_keys. str_contains ok k) \<and> map_of source_info k \<noteq> None
         then map_of source_info k else map_of ni k))
     \<and> (\<forall>md. map_of source_info metadata_key = Some (Dict md) \<longrightarrow>
          (\<forall>k. map_of nm' k =
             (if k \<in> set output_keys \<and> map_of md k \<noteq> None then map_of md k else map_of nm k)))
     \<and> (output_keys \<noteq> [] \<longrightarrow> (\<exists>md. map_of source_info metadata_key = Some (Dict md)))"
proof (induction output_keys arbitrary: ni nm)
  case Nil
  then show ?case by simp
next
  case (Cons ok oks)
  let ?ni = "scan_info ok source_info (map fst source_info) ni"
  from Cons.prems obtain md where md: "map_of source_info metadata_key = Some (Dict md)"
    by (auto simp: Let_def dict_get_def split: option.splits info_value.splits)
  let ?nm = "if dict_contains md ok then dict_set ok (the (map_of md ok)) nm else nm"
  from Cons.prems md have rest:
    "build_info metadata_key source_info oks (?ni, ?nm) = Inr (ni', nm')"
    by (auto simp: Let_def dict_get_def dict_contains_def split: option.splits if_splits)
  note IH = Cons.IH [OF rest]
  have a: "\<forall>k. map_of ni' k =
        (if (\<exists>o' \<in> set (ok # oks). str_contains o' k) \<and> map_of source_info k \<noteq> None
         then map_of source_info k else map_of ni k)"
    using IH by (auto simp: map_of_scan_info_keys)
  have b: "\<forall>k. map_of nm' k =
             (if k \<in> set (ok # oks) \<and> map_of md k \<noteq> None then map_of md k else map_of nm k)"
    using IH md by (auto simp: map_of_dict_set dict_contains_def)
  from a b md show ?case by simp
qed

lemma build_info_KeyError:
  "output_keys \<noteq> [] \<Longrightarrow> map_of source_info metadata_key = None \<Longrightarrow>
     build_info metadata_key source_info output_keys st = Inl (KeyError metadata_key)"
  by (cases output_keys; cases st) (simp_all add: Let_def dict_get_def)

lemma build_info_ok:
  "map_of source_info metadata_key = Some (Dict md) \<Longrightarrow>
     \<exists>st'. build_info metadata_key source_info output_keys st = Inr st'"
proof (induction output_keys arbitrary: st)
  case Nil
  then show ?case by simp
next
  case (Cons ok oks)
  obtain ni nm where st: "st = (ni, nm)" by (cases st)
  show ?case unfolding st using Cons.IH [OF Cons.prems] Cons.prems
    by (auto simp: Let_def dict_get_def dict_contains_def split: option.splits)
qed


lemma make_atoms_Inr:
  assumes m: "make_atoms metadata_key source_info new_cell extract_cube keys cell_norms sel = Inr a"
    and d: "distinct (map fst (cube_arrays sel))" "distinct (map fst (sphere_arrays sel))"
  shows "positions a = map (\<lambda>d. vadd d (vhalf cell_norms))
                         (if extract_cube then cube_disp sel else sphere_disp sel)"
    and "symbols a = (if extract_cube then cube_symbols sel else sphere_symbols sel)"
    and "cell a = to_cell new_cell" and "pbc a"
    and "fix_atoms a = (if extract_cube then ind_in_rc sel else [0..<length (sphere_disp sel)])"
    and "map_of (arrays a) k = map_of (if extract_cube then cube_arrays sel else sphere_arrays sel) k"
    and "\<forall>(k, arr) \<in> set (if extract_cube then cube_arrays sel else sphere_arrays sel).
           length arr = length (positions a)"
    and "\<exists>ni nm. build_info metadata_key source_info (map rsplit_base keys) ([], []) = Inr (ni, nm)
           \<and> info a = dict_set metadata_key (Dict nm) ni"
proof -
  let ?new_pos = "if extract_cube then cube_disp sel else sphere_disp sel"
  let ?new_arrays = "if extract_cube then cube_arrays sel else sphere_arrays sel"
  let ?a0 = "\<lparr>positions = map (\<lambda>d. vadd d (vhalf cell_norms)) ?new_pos,
               symbols = (if extract_cube then cube_symbols sel else sphere_symbols sel),
               cell = to_cell new_cell, pbc = True, arrays = [], info = [], fix_atoms = []\<rparr>
             :: ('a, 'b) atoms"
  from m obtain a1 where sa: "set_arrays ?new_arrays ?a0 = Inr a1"
    by (auto simp: make_atoms_def Let_def split: sum.splits)
  from m sa obtain ni nm where
    bi: "build_info metadata_key source_info (map rsplit_base keys) ([], []) = Inr (ni, nm)"
    by (auto simp: make_atoms_def Let_def split: sum.splits)
  from m sa bi have a: "a = a1\<lparr>info := dict_set metadata_key (Dict nm) ni,
       fix_atoms := (if extract_cube then ind_in_rc sel else [0..<length ?new_pos])\<rparr>"
    by (auto simp: make_atoms_def Let_def split: sum.splits)
  note S = set_arrays_Inr [OF sa]
  have dn: "distinct (map fst ?new_arrays)" using d by simp
  note A = set_arrays_arrays [OF sa dn]
  show "positions a = map (\<lambda>d. vadd d (vhalf cell_norms)) ?new_pos" using S by (simp add: a)
  show "symbols a = (if extract_cube then cube_symbols sel else sphere_symbols sel)"
    using S by (simp add: a)
  show "cell a = to_cell new_cell" using S by (simp add: a)
  show "pbc a" using S by (simp add: a)
  show "fix_atoms a = (if extract_cube then ind_in_rc sel else [0..<length (sphere_disp sel)])"
    by (simp add: a)
  show "map_of (arrays a) k = map_of ?new_arrays k"
    using A [of k] by (simp add: a split: option.splits)
  show "\<forall>(k, arr) \<in> set ?new_arrays. length arr = length (positions a)"
    using S by (simp add: a)
  show "\<exists>ni nm. build_info metadata_key source_info (map rsplit_base keys) ([], []) = Inr (ni, nm)
           \<and> info a = dict_set metadata_key (Dict nm) ni"
    using bi by (simp add: a)
qed

section \<open>Validation\<close>

lemma cell_shape_Mat3: "cell_shape (Mat3 m) = Inl (ValueError ambiguous_truth)"
  by (cases m rule: prod_cases3; simp add: cell_shape_def off_diagonal_def split: prod.splits)

lemma cell_shape_Vec3: "cell_shape (Vec3 v) = Inr (v, np_max3 v)"
  by (simp add: cell_shape_def)

lemma extract_env_Mat3:
  "extract_env nl metadata_key original_atoms rc atom_inds (Mat3 m) extract_cube keys_to_transfer
     = Inl (ValueError ambiguous_truth)"
  by (simp add: extract_env_def cell_shape_Mat3)

lemma py_index_error: "py_index xs i = Inl e \<Longrightarrow> e = IndexError"
  by (simp add: py_index_def split: if_splits)

lemma dict_get_error: "dict_get d k = Inl e \<Longrightarrow> e = KeyError k"
  by (simp add: dict_get_def split: option.splits)

lemma append_arrays_error:
  "append_arrays source i keys target = Inl e \<Longrightarrow> \<not> is_CellTooSmall e"
  by (induction keys arbitrary: target)
     (auto simp: is_CellTooSmall_def split: sum.splits dest!: py_index_error dict_get_error)

lemma collect_neighbors_error:
  "collect_neighbors pos syms source_cell atom_ind key_arrays keys nbrs st = Inl e
     \<Longrightarrow> \<not> is_CellTooSmall e"
proof (induction nbrs arbitrary: st)
  case Nil
  then show ?case by simp
next
  case (Cons n nbrs)
  obtain i offset where n: "n = (i, offset)" by (cases n)
  obtain d s a where st: "st = (d, s, a)" by (cases st)
  from Cons.prems Cons.IH show ?case unfolding n st
    by (auto simp: is_CellTooSmall_def split: sum.splits
             dest!: py_index_error dest: append_arrays_error)
qed

lemma select_entries_error:
  "select_entries from_symbols from_arrays keys ind st = Inl e \<Longrightarrow> \<not> is_CellTooSmall e"
proof (induction ind arbitrary: st)
  case Nil
  then show ?case by simp
next
  case (Cons i ind)
  obtain s a where st: "st = (s, a)" by (cases st)
  from Cons.prems Cons.IH show ?case unfolding st
    by (auto simp: is_CellTooSmall_def split: sum.splits
             dest!: py_index_error dest: append_arrays_error)
qed

lemma set_arrays_error: "set_arrays new_arrays a = Inl e \<Longrightarrow> \<not> is_CellTooSmall e"
  by (induction new_arrays arbitrary: a) (auto simp: is_CellTooSmall_def split: if_splits)

lemma build_info_error:
  "build_info metadata_key source_info output_keys st = Inl e \<Longrightarrow> \<not> is_CellTooSmall e"
proof (induction output_keys arbitrary: st)
  case Nil
  then show ?case by simp
next
  case (Cons k ks)
  obtain ni nm where st: "st = (ni, nm)" by (cases st)
  from Cons.prems Cons.IH show ?case unfolding st
    by (auto simp: is_CellTooSmall_def Let_def split: sum.splits info_value.splits if_splits
             dest!: dict_get_error)
qed

lemma gather_error:
  "gather nl original_atoms rc keys max_cell_len key_arrays atom_ind = Inl e
     \<Longrightarrow> \<not> is_CellTooSmall e"
  by (auto simp: gather_def Let_def is_CellTooSmall_def split: sum.splits prod.splits
           dest!: py_index_error dest: collect_neighbors_error select_entries_error)

lemma make_atoms_error:
  "make_atoms metadata_key source_info new_cell extract_cube keys cell_norms sel = Inl e
     \<Longrightarrow> \<not> is_CellTooSmall e"
  by (auto simp: make_atoms_def Let_def split: sum.splits prod.splits
           dest: set_arrays_error build_info_error)

lemma extract_one_error:
  "extract_one nl metadata_key original_atoms rc new_cell extract_cube keys cell_norms
       max_cell_len key_arrays atom_ind = Inl e \<Longrightarrow> \<not> is_CellTooSmall e"
  by (auto simp: extract_one_def split: sum.splits dest: gather_error make_atoms_error)

lemma for_each_error: "for_each body xs = Inl e \<Longrightarrow> \<exists>x \<in> set xs. body x = Inl e"
  by (induction xs) (auto split: sum.splits)

lemma get_arrays_error: "get_arrays source keys acc = Inl e \<Longrightarrow> \<not> is_CellTooSmall e"
  by (induction keys arbitrary: acc)
     (auto simp: is_CellTooSmall_def split: sum.splits dest!: dict_get_error)

lemma initial_checks_cases:
  "initial_checks source_cell rc (a, b, c) m =
     (if \<not> (a = b \<and> b = c)
      then Inl (ValueError ''New cell is not a cube. This is an unxpected case not accounted for'')
      else if too_small_condition source_cell rc (Vec3 (m, m, m))
      then (if m > fst (row_norms source_cell) \<or> m > fst (snd (row_norms source_cell))
                 \<or> m > snd (snd (row_norms source_cell))
            then Inl (CellTooSmallError
                   ''Requested extracted cell size is larger than original structure'')
            else if m < rc
            then Inl (CellTooSmallError
                   ''The specified value for rc is greater than the maximum cell vector length for the new supercell'')
            else Inl (CellTooSmallError ''2*rc is greater than the extracted cell side length''))
      else Inr ())"
  by (auto simp: initial_checks_def too_small_condition_def side_lengths_def np_max3_def Let_def
           split: prod.splits)

lemma after_checks_not_too_small:
  "(case get_arrays (arrays original_atoms) keys [] of
      Inl e \<Rightarrow> Inl e
    | Inr key_arrays \<Rightarrow>
        for_each (extract_one nl metadata_key original_atoms rc new_cell extract_cube keys
                    cell_norms max_cell_len key_arrays) inds) = Inl e
   \<Longrightarrow> \<not> is_CellTooSmall e"
  by (auto split: sum.splits dest: get_arrays_error dest!: for_each_error dest: extract_one_error)

lemma norm3_axis:
  "norm3 (a, 0, 0) = \<bar>a\<bar>" "norm3 (0, a, 0) = \<bar>a\<bar>" "norm3 (0, 0, a) = \<bar>a\<bar>"
  by (simp_all add: norm3_def)

lemma row_norms_diagonal:
  "row_norms ((a, 0, 0), (0, b, 0), (0, 0, c)) = (\<bar>a\<bar>, \<bar>b\<bar>, \<bar>c\<bar>)"
  by (simp add: row_norms_def norm3_axis)

lemma cell_too_small_cubic:
  "(\<exists>msg. extract_env nl metadata_key original_atoms rc atom_inds (Vec3 (c, c, c)) extract_cube
             keys_to_transfer = Inl (CellTooSmallError msg))
      \<longleftrightarrow> too_small_condition (cell original_atoms) rc (Vec3 (c, c, c))"
proof (cases "too_small_condition (cell original_atoms) rc (Vec3 (c, c, c))")
  case True
  then show ?thesis
    by (simp add: extract_env_def cell_shape_Vec3 initial_checks_cases np_max3_def)
next
  case False
  have "\<not> is_CellTooSmall e"
    if "extract_env nl metadata_key original_atoms rc atom_inds (Vec3 (c, c, c)) extract_cube
         keys_to_transfer = Inl e" for e
    using that False after_checks_not_too_small
            [where keys = "case keys_to_transfer of None \<Rightarrow> [] | Some ks \<Rightarrow> ks"]
    by (simp add: extract_env_def cell_shape_Vec3 initial_checks_cases np_max3_def Let_def)
  then have "\<not> (\<exists>msg. extract_env nl metadata_key original_atoms rc atom_inds (Vec3 (c, c, c))
         extract_cube keys_to_transfer = Inl (CellTooSmallError msg))"
    by (auto simp: is_CellTooSmall_def)
  with False show ?thesis by simp
qed

text \<open>
  C1. A target cell given as a full 3x3 matrix that is diagonal with three equal diagonal
  entries should pass the validation. The source asks for the truth value of the six-element
  array of off-diagonal comparisons (line 43), which numpy refuses for every array of more
  than one element: the call ends with that \<^verbatim>\<open>ValueError\<close>, for every such matrix.
\<close>

theorem diagonal_matrix_rejected:
  "extract_env nl metadata_key original_atoms rc atom_inds
     (Mat3 ((a, 0, 0), (0, a, 0), (0, 0, a))) extract_cube keys_to_transfer
   = Inl (ValueError ambiguous_truth)"
  by (rule extract_env_Mat3)

text \<open>
  C3, as amended. For a target cell given as a 3-vector, the call raises
  \<^verbatim>\<open>CellTooSmallError\<close> exactly when the three sides are equal and the largest side
  exceeds one of the source's three cell lengths, or \<open>rc\<close> exceeds it, or \<open>2 * rc\<close>
  exceeds it; and a request with \<open>2 * rc\<close> equal to a non-negative side that fits in the
  source passes the checks.
\<close>

theorem cell_too_small_iff:
  "((\<exists>msg. extract_env nl metadata_key original_atoms rc atom_inds (Vec3 (a, b, c)) extract_cube
             keys_to_transfer = Inl (CellTooSmallError msg))
      \<longleftrightarrow> (a = b \<and> b = c \<and> too_small_condition (cell original_atoms) rc (Vec3 (a, b, c))))
   \<and> (rc * 2 = a \<and> 0 \<le> a \<and> \<not> (case row_norms (cell original_atoms) of
          (l0, l1, l2) \<Rightarrow> a > l0 \<or> a > l1 \<or> a > l2)
        \<longrightarrow> initial_checks (cell original_atoms) rc (a, a, a) (np_max3 (a, a, a)) = Inr ())"
proof (intro conjI)
  let ?r = "extract_env nl metadata_key original_atoms rc atom_inds (Vec3 (a, b, c)) extract_cube
             keys_to_transfer"
  show "(\<exists>msg. ?r = Inl (CellTooSmallError msg))
      \<longleftrightarrow> (a = b \<and> b = c \<and> too_small_condition (cell original_atoms) rc (Vec3 (a, b, c)))"
  proof (cases "a = b \<and> b = c")
    case False
    then have "?r = Inl (ValueError ''New cell is not a cube. This is an unxpected case not accounted for'')"
      by (auto simp: extract_env_def cell_shape_Vec3 initial_checks_cases)
    with False show ?thesis by auto
  next
    case True
    then have ab: "a = c" "b = c" by simp_all
    show ?thesis using cell_too_small_cubic [of nl metadata_key original_atoms rc atom_inds c
        extract_cube keys_to_transfer]
      by (simp add: ab)
  qed
next
  show "rc * 2 = a \<and> 0 \<le> a \<and> \<not> (case row_norms (cell original_atoms) of
          (l0, l1, l2) \<Rightarrow> a > l0 \<or> a > l1 \<or> a > l2)
        \<longrightarrow> initial_checks (cell original_atoms) rc (a, a, a) (np_max3 (a, a, a)) = Inr ()"
    by (auto simp: initial_checks_def np_max3_def split: prod.splits)
qed

theorem cell_too_small_iff_witness:
  "(3::real) * 2 = 6 \<and> (0::real) \<le> 6
   \<and> \<not> (case row_norms (cell scenario_source) of (l0, l1, l2) \<Rightarrow> 6 > l0 \<or> 6 > l1 \<or> 6 > l2)
   \<and> initial_checks (cell scenario_source) 3 (6, 6, 6) (np_max3 (6, 6, 6)) = Inr ()
   \<and> \<not> too_small_condition (cell scenario_source) 3 (Vec3 (6, 6, 6))
   \<and> (\<forall>msg. extract_env scenario_nl ''meta'' scenario_source 3 (Many [0]) (Vec3 (6, 6, 6)) False None
         \<noteq> Inl (CellTooSmallError msg))"
proof -
  have h: "(3::real) * 2 = 6 \<and> (0::real) \<le> 6
     \<and> \<not> (case row_norms (cell scenario_source) of (l0, l1, l2) \<Rightarrow> 6 > l0 \<or> 6 > l1 \<or> 6 > l2)"
    by (simp add: scenario_source_def row_norms_diagonal)
  have t: "\<not> too_small_condition (cell scenario_source) 3 (Vec3 (6, 6, 6))"
    by (simp add: too_small_condition_def side_lengths_def np_max3_def scenario_source_def
          row_norms_diagonal)
  from cell_too_small_iff [of scenario_nl "''meta''" scenario_source 3 "Many [0]" 6 6 6 False None] h t
  show ?thesis by simp
qed

text \<open>
  C3, as stated, fails where the cube check comes first: with sides 10, 11 and 12 in a source
  of side 10 the size condition holds, and the call raises the \<^verbatim>\<open>ValueError\<close> of the
  cube check instead.
\<close>

theorem cell_too_small_masked_counterexample:
  "too_small_condition (cell scenario_source) 1 (Vec3 (10, 11, 12))
   \<and> extract_env scenario_nl ''meta'' scenario_source 1 (Many [0]) (Vec3 (10, 11, 12)) False None
       = Inl (ValueError ''New cell is not a cube. This is an unxpected case not accounted for'')"
  by (simp add: too_small_condition_def side_lengths_def np_max3_def scenario_source_def
        row_norms_diagonal extract_env_def cell_shape_Vec3 initial_checks_cases)

text \<open>
  C4. A target cell, 3-vector or 3x3 matrix, whose three side lengths are not all equal
  (exact equality, no tolerance) is refused with a \<^verbatim>\<open>ValueError\<close>, the same one for
  every neighbour table, source structure, \<open>rc\<close>, centre indices, flag and keys: nothing of
  the extraction is reached.
\<close>

theorem non_cubic_cell_rejected:
  "(case side_lengths new_cell of (n0, n1, n2) \<Rightarrow> \<not> (n0 = n1 \<and> n1 = n2)) \<Longrightarrow>
     \<exists>msg. \<forall>nl metadata_key (original_atoms :: ('v, 'w) atoms) rc atom_inds extract_cube
         keys_to_transfer.
       extract_env nl metadata_key original_atoms rc atom_inds new_cell extract_cube
         keys_to_transfer = Inl (ValueError msg)"
proof (cases new_cell)
  case (Mat3 m)
  show ?thesis unfolding Mat3 by (intro exI allI) (rule extract_env_Mat3)
next
  case (Vec3 v)
  assume h: "case side_lengths new_cell of (n0, n1, n2) \<Rightarrow> \<not> (n0 = n1 \<and> n1 = n2)"
  obtain a b c where v: "v = (a, b, c)" by (cases v rule: prod_cases3)
  from h have "\<not> (a = b \<and> b = c)" by (simp add: Vec3 v side_lengths_def)
  then show ?thesis unfolding Vec3 v
    by (intro exI [of _ "''New cell is not a cube. This is an unxpected case not accounted for''"])
       (simp add: extract_env_def cell_shape_Vec3 initial_checks_cases)
qed

theorem non_cubic_cell_rejected_witness:
  "(case side_lengths (Vec3 (6, 6, 7)) of (n0, n1, n2) \<Rightarrow> \<not> (n0 = n1 \<and> n1 = n2))
   \<and> (\<exists>msg. extract_env scenario_nl ''meta'' scenario_source 2 (Many [0]) (Vec3 (6, 6, 7)) False None
         = Inl (ValueError msg))"
proof -
  have h: "case side_lengths (Vec3 (6, 6, 7)) of (n0, n1, n2) \<Rightarrow> \<not> (n0 = n1 \<and> n1 = n2)"
    by (simp add: side_lengths_def)
  from non_cubic_cell_rejected [OF h, where 'v = nat and 'w = nat] h show ?thesis by blast
qed

section \<open>The call on accepted requests\<close>

lemma extract_env_Vec3:
  "extract_env nl metadata_key original_atoms rc atom_inds (Vec3 (a, b, c)) extract_cube
       keys_to_transfer =
     (case initial_checks (cell original_atoms) rc (a, b, c) (np_max3 (a, b, c)) of
        Inl e \<Rightarrow> Inl e
      | Inr u \<Rightarrow>
         (case get_arrays (arrays original_atoms) (normalize_keys keys_to_transfer) [] of
            Inl e \<Rightarrow> Inl e
          | Inr key_arrays \<Rightarrow>
              for_each (extract_one nl metadata_key original_atoms rc (Vec3 (a, b, c)) extract_cube
                          (normalize_keys keys_to_transfer) (a, b, c) (np_max3 (a, b, c)) key_arrays)
                (normalize_inds atom_inds)))"
  by (simp add: extract_env_def cell_shape_Vec3 normalize_keys_def normalize_inds_def Let_def
        split: sum.splits)

lemma extract_env_Inr:
  assumes "extract_env nl metadata_key original_atoms rc atom_inds new_cell extract_cube
             keys_to_transfer = Inr structs"
  obtains a key_arrays where "new_cell = Vec3 (a, a, a)"
    and "\<not> too_small_condition (cell original_atoms) rc new_cell"
    and "get_arrays (arrays original_atoms) (normalize_keys keys_to_transfer) [] = Inr key_arrays"
    and "for_each (extract_one nl metadata_key original_atoms rc new_cell extract_cube
                     (normalize_keys keys_to_transfer) (a, a, a) a key_arrays)
           (normalize_inds atom_inds) = Inr structs"
proof (cases new_cell)
  case (Mat3 m)
  with assms show ?thesis by (simp add: extract_env_Mat3)
next
  case (Vec3 v)
  obtain a b c where v: "v = (a, b, c)" by (cases v rule: prod_cases3)
  from assms have ic: "initial_checks (cell original_atoms) rc (a, b, c) (np_max3 (a, b, c)) = Inr ()"
    unfolding Vec3 v extract_env_Vec3 by (auto split: sum.splits)
  then have eq: "a = b" "b = c"
    by (auto simp: initial_checks_cases split: if_splits)
  then have m: "np_max3 (a, b, c) = c" by (simp add: np_max3_def)
  from ic have ts: "\<not> too_small_condition (cell original_atoms) rc (Vec3 (c, c, c))"
    unfolding m by (auto simp: initial_checks_cases eq split: if_splits)
  from assms ic obtain key_arrays where
    ka: "get_arrays (arrays original_atoms) (normalize_keys keys_to_transfer) [] = Inr key_arrays"
    unfolding Vec3 v extract_env_Vec3 by (auto split: sum.splits)
  from assms ic ka have
    "for_each (extract_one nl metadata_key original_atoms rc (Vec3 (c, c, c)) extract_cube
                     (normalize_keys keys_to_transfer) (c, c, c) c key_arrays)
           (normalize_inds atom_inds) = Inr structs"
    unfolding Vec3 v extract_env_Vec3 by (simp add: eq m np_max3_def)
  with ts ka show ?thesis
    by (intro that [of c key_arrays]) (simp_all add: Vec3 v eq)
qed

lemma gather_bounds:
  assumes g: "gather nl original_atoms rc keys max_cell_len key_arrays atom_ind = Inr sel"
    and e: "e \<in> set (nl ! center_index nl atom_ind)"
  shows "fst e < length (positions original_atoms) \<and> fst e < length (symbols original_atoms)
         \<and> (\<forall>k \<in> set keys. \<exists>arr. map_of key_arrays k = Some arr \<and> fst e < length arr)"
proof -
  from g obtain nb where nb: "py_index nl atom_ind = Inr nb"
    by (auto simp: gather_def split: sum.splits)
  from py_index_Inr [OF nb] have nb_eq: "nb = nl ! center_index nl atom_ind" by simp
  from g nb obtain st where
    cn: "collect_neighbors (positions original_atoms) (symbols original_atoms)
           (cell original_atoms) atom_ind key_arrays keys (nl ! center_index nl atom_ind)
           ([], [], empty_lists keys []) = Inr st"
    by (auto simp: gather_def nb_eq split: sum.splits)
  from collect_neighbors_bounds [OF cn e] show ?thesis .
qed

lemma extract_one_Inr:
  assumes x: "extract_one nl metadata_key original_atoms rc new_cell extract_cube keys cell_norms
                max_cell_len key_arrays atom_ind = Inr s"
    and ka: "get_arrays (arrays original_atoms) keys [] = Inr key_arrays"
  defines "disp \<equiv> displacement (positions original_atoms) (cell original_atoms) atom_ind"
  defines "es \<equiv> emitted_entries (positions original_atoms) (cell original_atoms) atom_ind
                  (max_cell_len / 2) rc extract_cube (nl ! center_index nl atom_ind)"
  shows "positions s = map (\<lambda>e. vadd (disp e) (vhalf cell_norms)) es"
    and "symbols s = map (\<lambda>e. symbols original_atoms ! fst e) es"
    and "cell s = to_cell new_cell" and "pbc s"
    and "fix_atoms s = (if extract_cube then np_where (\<lambda>d. norm3 d \<le> rc) (map disp es)
                        else [0..<length es])"
    and "k \<in> set keys \<Longrightarrow> \<exists>arr. map_of (arrays original_atoms) k = Some arr
            \<and> map_of (arrays s) k = Some (map (\<lambda>e. arr ! fst e) es)
            \<and> (\<forall>e \<in> set es. fst e < length arr)"
    and "k \<notin> set keys \<Longrightarrow> map_of (arrays s) k = None"
    and "\<exists>ni nm. build_info metadata_key (info original_atoms) (map rsplit_base keys) ([], [])
                    = Inr (ni, nm) \<and> info s = dict_set metadata_key (Dict nm) ni"
    and "center_index nl atom_ind < length nl"
proof -
  let ?nbrs = "nl ! center_index nl atom_ind"
  from x obtain sel where
    g: "gather nl original_atoms rc keys max_cell_len key_arrays atom_ind = Inr sel"
    and m: "make_atoms metadata_key (info original_atoms) new_cell extract_cube keys cell_norms sel
              = Inr s"
    by (auto simp: extract_one_def split: sum.splits)
  note G = gather_Inr [OF g]
  note M = make_atoms_Inr [OF m G(7) G(8)]
  have sub: "set es \<subseteq> set ?nbrs"
    by (auto simp: es_def emitted_entries_def cube_entries_def sphere_entries_def)
  show "center_index nl atom_ind < length nl" by (rule G(1))
  show "positions s = map (\<lambda>e. vadd (disp e) (vhalf cell_norms)) es"
    using M(1) G(2) G(5) by (simp add: es_def emitted_entries_def disp_def)
  show "symbols s = map (\<lambda>e. symbols original_atoms ! fst e) es"
    using M(2) G(3) G(6) by (simp add: es_def emitted_entries_def)
  show "cell s = to_cell new_cell" by (rule M(3))
  show "pbc s" by (rule M(4))
  show "fix_atoms s = (if extract_cube then np_where (\<lambda>d. norm3 d \<le> rc) (map disp es)
                        else [0..<length es])"
    using M(5) G(2) G(4) G(5) by (simp add: es_def emitted_entries_def disp_def)
  show "\<exists>ni nm. build_info metadata_key (info original_atoms) (map rsplit_base keys) ([], [])
                    = Inr (ni, nm) \<and> info s = dict_set metadata_key (Dict nm) ni"
    by (rule M(8))
  show "map_of (arrays s) k = None" if "k \<notin> set keys"
    using M(6) [of k] G(11) [OF that] by simp
  show "\<exists>arr. map_of (arrays original_atoms) k = Some arr
            \<and> map_of (arrays s) k = Some (map (\<lambda>e. arr ! fst e) es)
            \<and> (\<forall>e \<in> set es. fst e < length arr)" if k: "k \<in> set keys"
  proof -
    from get_arrays_Inr [OF ka, of k] k obtain arr where
      arr: "map_of (arrays original_atoms) k = Some arr" "map_of key_arrays k = Some arr"
      by auto
    have bounds: "\<forall>e \<in> set es. fst e < length arr"
      using gather_bounds [OF g] sub k arr(2) by fastforce
    let ?na = "if extract_cube then cube_arrays sel else sphere_arrays sel"
    have "\<exists>a. map_of ?na k = Some a \<and> length a = count_list keys k * length es
            \<and> (count_list keys k = 1 \<longrightarrow> a = map (\<lambda>e. the (map_of key_arrays k) ! fst e) es)"
      using G(9) [OF k] G(10) [OF k] by (simp add: es_def emitted_entries_def)
    then obtain a where a: "map_of ?na k = Some a" "length a = count_list keys k * length es"
      "count_list keys k = 1 \<longrightarrow> a = map (\<lambda>e. arr ! fst e) es"
      using arr(2) by auto
    from a(1) have "(k, a) \<in> set ?na" by (rule map_of_SomeD)
    with M(7) have "length a = length (positions s)" by auto
    also have "\<dots> = length es" using M(1) G(2) G(5) by (simp add: es_def emitted_entries_def)
    finally have la: "length a = length es" .
    have "a = map (\<lambda>e. arr ! fst e) es"
    proof (cases "count_list keys k = 1")
      case True
      with a(3) show ?thesis by simp
    next
      case False
      with la a(2) have "length es = 0" by (cases "count_list keys k") auto
      with la show ?thesis by simp
    qed
    with arr(1) a(1) M(6) [of k] bounds show ?thesis by simp
  qed
qed

lemma valid_geometry_D:
  assumes "valid_geometry nl original_atoms rc inds new_cell keys"
  obtains a key_arrays where "new_cell = Vec3 (a, a, a)"
    and "initial_checks (cell original_atoms) rc (a, a, a) (np_max3 (a, a, a)) = Inr ()"
    and "np_max3 (a, a, a) = a"
    and "get_arrays (arrays original_atoms) keys [] = Inr key_arrays"
proof -
  from assms obtain a where nc: "new_cell = Vec3 (a, a, a)"
    by (auto simp: valid_geometry_def split: ndarray.splits prod.splits)
  have m: "np_max3 (a, a, a) = a" by (simp add: np_max3_def)
  from assms have "\<not> too_small_condition (cell original_atoms) rc (Vec3 (a, a, a))"
    by (simp add: valid_geometry_def nc)
  then have ic: "initial_checks (cell original_atoms) rc (a, a, a) (np_max3 (a, a, a)) = Inr ()"
    by (simp add: initial_checks_cases m)
  from assms have "\<forall>k \<in> set keys. map_of (arrays original_atoms) k \<noteq> None"
    by (auto simp: valid_geometry_def list_all_iff split: option.splits)
  from get_arrays_ok [OF this] obtain key_arrays where
    "get_arrays (arrays original_atoms) keys [] = Inr key_arrays" by blast
  with nc ic m show ?thesis by (rule that)
qed

lemma gather_valid:
  assumes v: "valid_geometry nl original_atoms rc inds new_cell keys"
    and ka: "get_arrays (arrays original_atoms) keys [] = Inr key_arrays"
    and i: "atom_ind \<in> set inds"
  shows "\<exists>sel. gather nl original_atoms rc keys max_cell_len key_arrays atom_ind = Inr sel"
proof (rule gather_ok)
  let ?n = "length (positions original_atoms)"
  from v i show "0 \<le> atom_ind" "atom_ind < int (length nl)" "atom_ind < int ?n"
    by (auto simp: valid_geometry_def list_all_iff)
  then have "nl ! nat atom_ind \<in> set nl" by simp
  with v have b: "\<forall>e \<in> set (nl ! nat atom_ind). fst e < ?n"
    by (auto simp: valid_geometry_def list_all_iff)
  have k: "\<exists>arr. map_of key_arrays k = Some arr \<and> length arr = ?n" if "k \<in> set keys" for k
    using v that get_arrays_Inr [OF ka, of k]
    by (auto simp: valid_geometry_def list_all_iff split: option.splits)
  from v have "length (symbols original_atoms) = ?n" by (simp add: valid_geometry_def)
  with b k show "\<forall>e \<in> set (nl ! nat atom_ind). fst e < ?n
         \<and> fst e < length (symbols original_atoms)
         \<and> (\<forall>k \<in> set keys. \<exists>arr. map_of key_arrays k = Some arr \<and> fst e < length arr)"
    by fastforce
qed

lemma set_arrays_valid:
  assumes g: "gather nl original_atoms rc keys max_cell_len key_arrays atom_ind = Inr sel"
    and d: "distinct keys"
    and p: "length (positions a) = length (if extract_cube then cube_disp sel else sphere_disp sel)"
  shows "\<exists>a'. set_arrays (if extract_cube then cube_arrays sel else sphere_arrays sel) a = Inr a'"
proof (rule set_arrays_ok, clarify)
  fix k arr
  let ?na = "if extract_cube then cube_arrays sel else sphere_arrays sel"
  note G = gather_Inr [OF g]
  assume mem: "(k, arr) \<in> set ?na"
  have dn: "distinct (map fst ?na)" using G(7) G(8) by simp
  from mem dn have mo: "map_of ?na k = Some arr" by (simp add: map_of_is_SomeI)
  with G(11) [of k] have k: "k \<in> set keys" by (auto split: if_splits)
  then have c: "count_list keys k = 1" using d by (simp add: count_list_distinct)
  from G(9) [OF k] G(10) [OF k] mo c G(2) G(5) p
  show "length arr = length (positions a)" by (auto split: if_splits)
qed

lemma extract_one_valid:
  assumes v: "valid_request nl metadata_key original_atoms rc inds new_cell keys"
    and ka: "get_arrays (arrays original_atoms) keys [] = Inr key_arrays"
    and i: "atom_ind \<in> set inds"
  shows "\<exists>s. extract_one nl metadata_key original_atoms rc new_cell extract_cube keys cell_norms
                max_cell_len key_arrays atom_ind = Inr s"
proof -
  from v have vg: "valid_geometry nl original_atoms rc inds new_cell keys"
    by (simp add: valid_request_def)
  from gather_valid [OF vg ka i] obtain sel where
    g: "gather nl original_atoms rc keys max_cell_len key_arrays atom_ind = Inr sel" by blast
  from vg have d: "distinct keys" by (simp add: valid_geometry_def)
  let ?a0 = "\<lparr>positions = map (\<lambda>d. vadd d (vhalf cell_norms))
                            (if extract_cube then cube_disp sel else sphere_disp sel),
               symbols = (if extract_cube then cube_symbols sel else sphere_symbols sel),
               cell = to_cell new_cell, pbc = True, arrays = [], info = [], fix_atoms = []\<rparr>
             :: ('a, 'b) atoms"
  from set_arrays_valid [OF g d, of ?a0 extract_cube] obtain a1 where
    sa: "set_arrays (if extract_cube then cube_arrays sel else sphere_arrays sel) ?a0 = Inr a1"
    by auto
  have "\<exists>st. build_info metadata_key (info original_atoms) (map rsplit_base keys) ([], []) = Inr st"
  proof (cases "keys = []")
    case True
    then show ?thesis by simp
  next
    case False
    with v obtain md where "map_of (info original_atoms) metadata_key = Some (Dict md)"
      by (auto simp: valid_request_def has_metadata_def split: option.splits info_value.splits)
    from build_info_ok [OF this] show ?thesis .
  qed
  then obtain ni nm where
    bi: "build_info metadata_key (info original_atoms) (map rsplit_base keys) ([], []) = Inr (ni, nm)"
    by (metis surj_pair)
  show ?thesis using g sa bi
    by (simp add: extract_one_def make_atoms_def Let_def)
qed

lemma extract_env_valid:
  assumes v: "valid_request nl metadata_key original_atoms rc (normalize_inds atom_inds) new_cell
                (normalize_keys keys_to_transfer)"
  shows "\<exists>structs. extract_env nl metadata_key original_atoms rc atom_inds new_cell extract_cube
                      keys_to_transfer = Inr structs"
proof -
  from v have vg: "valid_geometry nl original_atoms rc (normalize_inds atom_inds) new_cell
                (normalize_keys keys_to_transfer)"
    by (simp add: valid_request_def)
  from valid_geometry_D [OF vg] obtain a key_arrays where
    nc: "new_cell = Vec3 (a, a, a)"
    and ic: "initial_checks (cell original_atoms) rc (a, a, a) (np_max3 (a, a, a)) = Inr ()"
    and ka: "get_arrays (arrays original_atoms) (normalize_keys keys_to_transfer) [] = Inr key_arrays"
    by blast
  have "\<forall>i \<in> set (normalize_inds atom_inds). \<exists>s.
      extract_one nl metadata_key original_atoms rc new_cell extract_cube
        (normalize_keys keys_to_transfer) (a, a, a) (np_max3 (a, a, a)) key_arrays i = Inr s"
    using extract_one_valid [OF v ka] by blast
  from for_each_ok [OF this] show ?thesis
    by (simp add: nc extract_env_Vec3 ic ka)
qed

section \<open>Evaluation of the scenarios and the claims about the extracted structures\<close>

lemmas eval_defs = extract_env_Vec3 initial_checks_cases too_small_condition_def side_lengths_def
  np_max3_def row_norms_diagonal normalize_keys_def normalize_inds_def
  dict_get_def extract_one_def gather_def py_index_def vadd_def vsub_def offset_matmul_def
  np_where_def take_rows_def in_cube_def make_atoms_def vhalf_def to_cell_def rsplit_base_def
  dict_contains_def norm3_axis Let_def

lemma scenario_result:
  "extract_env scenario_nl ''meta'' scenario_source 2 (Many [0]) (Vec3 (6, 6, 6)) extract_cube
     (Some [''charges_value''])
   = Inr [\<lparr>positions = [(3, 3, 3)], symbols = [''Cu''],
           cell = ((6, 0, 0), (0, 6, 0), (0, 0, 6)), pbc = True,
           arrays = [(''charges_value'', [7])],
           info = [(''charges_note'', Plain 1), (''meta'', Dict [(''charges'', 5)])],
           fix_atoms = [0]\<rparr>]"
  by (simp add: scenario_source_def scenario_nl_def eval_defs)


lemma chain_result_sphere:
  "extract_env chain_nl ''meta'' chain_source 2 (Many [1, 0]) (Vec3 (6, 6, 6)) False
     (Some [''charges_value''])
   = Inr [\<lparr>positions = [(2, 3, 3), (3, 3, 3), (9 / 2, 3, 3)], symbols = [''Cu'', ''Au'', ''Ag''],
           cell = ((6, 0, 0), (0, 6, 0), (0, 0, 6)), pbc = True,
           arrays = [(''charges_value'', [7, 8, 9])],
           info = [(''charges_note'', Plain 1), (''meta'', Dict [(''charges'', 5)])],
           fix_atoms = [0, 1, 2]\<rparr>,
          \<lparr>positions = [(3, 3, 3), (4, 3, 3)], symbols = [''Cu'', ''Au''],
           cell = ((6, 0, 0), (0, 6, 0), (0, 0, 6)), pbc = True,
           arrays = [(''charges_value'', [7, 8])],
           info = [(''charges_note'', Plain 1), (''meta'', Dict [(''charges'', 5)])],
           fix_atoms = [0, 1]\<rparr>]"
  by (simp add: chain_source_def chain_nl_def eval_defs numeral_3_eq_3)

lemma coincident_result:
  "extract_env coincident_nl ''meta'' coincident_source 2 (Many [0]) (Vec3 (6, 6, 6)) False None
   = Inr [\<lparr>positions = [(3, 3, 3), (3, 3, 3)], symbols = [''Cu'', ''Au''],
           cell = ((6, 0, 0), (0, 6, 0), (0, 0, 6)), pbc = True,
           arrays = [], info = [(''meta'', Dict [])],
           fix_atoms = [0, 1]\<rparr>]"
  by (simp add: coincident_source_def coincident_nl_def eval_defs numeral_2_eq_2)

lemma extract_env_accepted:
  assumes "\<not> too_small_condition (cell original_atoms) rc (Vec3 (a, a, a))"
    and "get_arrays (arrays original_atoms) (normalize_keys keys_to_transfer) [] = Inr key_arrays"
  shows "extract_env nl metadata_key original_atoms rc atom_inds (Vec3 (a, a, a)) extract_cube
           keys_to_transfer
         = for_each (extract_one nl metadata_key original_atoms rc (Vec3 (a, a, a)) extract_cube
                       (normalize_keys keys_to_transfer) (a, a, a) a key_arrays)
             (normalize_inds atom_inds)"
  using assms by (simp add: extract_env_Vec3 initial_checks_cases np_max3_def)

lemma extract_env_nth:
  assumes r: "extract_env nl metadata_key original_atoms rc atom_inds new_cell extract_cube
             keys_to_transfer = Inr structs"
    and j: "j < length structs"
  obtains a key_arrays where "new_cell = Vec3 (a, a, a)"
    and "\<not> too_small_condition (cell original_atoms) rc new_cell"
    and "get_arrays (arrays original_atoms) (normalize_keys keys_to_transfer) [] = Inr key_arrays"
    and "j < length (normalize_inds atom_inds)"
    and "extract_one nl metadata_key original_atoms rc new_cell extract_cube
           (normalize_keys keys_to_transfer) (a, a, a) a key_arrays (normalize_inds atom_inds ! j)
         = Inr (structs ! j)"
proof -
  from extract_env_Inr [OF r] obtain a key_arrays where
    nc: "new_cell = Vec3 (a, a, a)"
    and ts: "\<not> too_small_condition (cell original_atoms) rc new_cell"
    and ka: "get_arrays (arrays original_atoms) (normalize_keys keys_to_transfer) [] = Inr key_arrays"
    and fe: "for_each (extract_one nl metadata_key original_atoms rc new_cell extract_cube
                     (normalize_keys keys_to_transfer) (a, a, a) a key_arrays)
           (normalize_inds atom_inds) = Inr structs"
    by blast
  from fe j have "j < length (normalize_inds atom_inds)"
    and "extract_one nl metadata_key original_atoms rc new_cell extract_cube
           (normalize_keys keys_to_transfer) (a, a, a) a key_arrays (normalize_inds atom_inds ! j)
         = Inr (structs ! j)"
    by (simp_all add: for_each_Inr)
  with nc ts ka show ?thesis by (rule that)
qed

text \<open>
  C8. A single integer centre index gives what the one-element list gives. A request with a
  list of centre indices that is valid (see \<open>valid_request\<close>) returns; and whenever the call
  returns, it returns exactly one structure per index, in the order of the indices: the
  \<open>j\<close>-th structure is the one the call returns for the \<open>j\<close>-th index alone.
\<close>

theorem one_structure_per_index:
  "extract_env nl metadata_key original_atoms rc (Single i) new_cell extract_cube keys_to_transfer
     = extract_env nl metadata_key original_atoms rc (Many [i]) new_cell extract_cube
         keys_to_transfer
   \<and> (valid_request nl metadata_key original_atoms rc inds new_cell
         (normalize_keys keys_to_transfer)
      \<longrightarrow> (\<exists>structs. extract_env nl metadata_key original_atoms rc (Many inds) new_cell
              extract_cube keys_to_transfer = Inr structs))
   \<and> (\<forall>structs. extract_env nl metadata_key original_atoms rc (Many inds) new_cell extract_cube
                  keys_to_transfer = Inr structs
      \<longrightarrow> length structs = length inds
          \<and> (\<forall>j < length inds.
                extract_env nl metadata_key original_atoms rc (Many [inds ! j]) new_cell
                  extract_cube keys_to_transfer = Inr [structs ! j]))"
proof (intro conjI allI impI)
  show "extract_env nl metadata_key original_atoms rc (Single i) new_cell extract_cube
          keys_to_transfer
     = extract_env nl metadata_key original_atoms rc (Many [i]) new_cell extract_cube
         keys_to_transfer"
    by (simp add: extract_env_def Let_def split: sum.splits prod.splits)
next
  assume "valid_request nl metadata_key original_atoms rc inds new_cell
            (normalize_keys keys_to_transfer)"
  then show "\<exists>structs. extract_env nl metadata_key original_atoms rc (Many inds) new_cell
              extract_cube keys_to_transfer = Inr structs"
    using extract_env_valid [of nl metadata_key original_atoms rc "Many inds"]
    by (simp add: normalize_inds_def)
next
  fix structs
  assume r: "extract_env nl metadata_key original_atoms rc (Many inds) new_cell extract_cube
               keys_to_transfer = Inr structs"
  from extract_env_Inr [OF r] obtain a key_arrays where
    nc: "new_cell = Vec3 (a, a, a)"
    and ts: "\<not> too_small_condition (cell original_atoms) rc new_cell"
    and ka: "get_arrays (arrays original_atoms) (normalize_keys keys_to_transfer) [] = Inr key_arrays"
    and fe: "for_each (extract_one nl metadata_key original_atoms rc new_cell extract_cube
                     (normalize_keys keys_to_transfer) (a, a, a) a key_arrays)
           (normalize_inds (Many inds)) = Inr structs"
    by blast
  from fe show len: "length structs = length inds"
    by (simp add: for_each_Inr normalize_inds_def)
  fix j assume j: "j < length inds"
  with fe have "extract_one nl metadata_key original_atoms rc new_cell extract_cube
           (normalize_keys keys_to_transfer) (a, a, a) a key_arrays (inds ! j) = Inr (structs ! j)"
    by (simp add: for_each_Inr normalize_inds_def)
  then show "extract_env nl metadata_key original_atoms rc (Many [inds ! j]) new_cell
                  extract_cube keys_to_transfer = Inr [structs ! j]"
    using ts ka unfolding nc
    by (simp add: extract_env_accepted normalize_inds_def)
qed

lemma chain_valid:
  "valid_request chain_nl ''meta'' chain_source 2 [1, 0] (Vec3 (6, 6, 6))
     (normalize_keys (Some [''charges_value'']))"
  by (simp add: valid_request_def valid_geometry_def has_metadata_def chain_source_def chain_nl_def
        too_small_condition_def side_lengths_def np_max3_def row_norms_diagonal normalize_keys_def
        numeral_3_eq_3)

theorem one_structure_per_index_witness:
  "valid_request chain_nl ''meta'' chain_source 2 [1, 0] (Vec3 (6, 6, 6))
     (normalize_keys (Some [''charges_value'']))
   \<and> (\<exists>structs. extract_env chain_nl ''meta'' chain_source 2 (Many [1, 0]) (Vec3 (6, 6, 6)) False
         (Some [''charges_value'']) = Inr structs
       \<and> length structs = length [1, 0 :: int]
       \<and> extract_env chain_nl ''meta'' chain_source 2 (Many [[1, 0] ! 1]) (Vec3 (6, 6, 6)) False
         (Some [''charges_value'']) = Inr [structs ! 1])"
proof -
  note t = one_structure_per_index [of chain_nl "''meta''" chain_source 2 0 "Vec3 (6, 6, 6)" False
      "Some [''charges_value'']" "[1, 0]"]
  from t chain_valid obtain structs where
    s: "extract_env chain_nl ''meta'' chain_source 2 (Many [1, 0]) (Vec3 (6, 6, 6)) False
         (Some [''charges_value'']) = Inr structs"
    by blast
  from t have "\<forall>structs. extract_env chain_nl ''meta'' chain_source 2 (Many [1, 0]) (Vec3 (6, 6, 6))
          False (Some [''charges_value'']) = Inr structs
      \<longrightarrow> length structs = length [1, 0 :: int]
          \<and> (\<forall>j < length [1, 0 :: int].
                extract_env chain_nl ''meta'' chain_source 2 (Many [[1, 0] ! j]) (Vec3 (6, 6, 6))
                  False (Some [''charges_value'']) = Inr [structs ! j])"
    by (elim conjE)
  with s have l: "length structs = length [1, 0 :: int]"
    and n: "\<forall>j < length [1, 0 :: int].
                extract_env chain_nl ''meta'' chain_source 2 (Many [[1, 0] ! j]) (Vec3 (6, 6, 6))
                  False (Some [''charges_value'']) = Inr [structs ! j]"
    by blast+
  have "(1::nat) < length [1, 0 :: int]" by simp
  with n have "extract_env chain_nl ''meta'' chain_source 2 (Many [[1, 0] ! 1]) (Vec3 (6, 6, 6)) False
         (Some [''charges_value'']) = Inr [structs ! 1]"
    by blast
  with l have "length structs = length [1, 0 :: int]
       \<and> extract_env chain_nl ''meta'' chain_source 2 (Many [[1, 0] ! 1]) (Vec3 (6, 6, 6)) False
         (Some [''charges_value'']) = Inr [structs ! 1]"
    by (rule conjI)
  with chain_valid s show ?thesis by blast
qed

lemma side_lengths_cubic:
  "side_lengths (Vec3 (a, a, a)) = (a, a, a)" "np_max3 (a, a, a) = a"
  "vhalf (a, a, a) = (a / 2, a / 2, a / 2)"
  by (simp_all add: side_lengths_def np_max3_def vhalf_def)






text \<open>
  C7. In the \<open>j\<close>-th structure the call returns, for every requested key: the structure's
  atoms come, in order, from the emitted neighbour entries of the \<open>j\<close>-th centre (position
  \<open>i\<close> is the displacement of entry \<open>i\<close> shifted by the box centre), and entry \<open>i\<close> of the
  structure's array under that key is the source array's entry for the source atom that
  neighbour entry \<open>i\<close> names.
\<close>

theorem auxiliary_arrays_aligned:
  assumes r: "extract_env nl metadata_key original_atoms rc atom_inds new_cell extract_cube
                keys_to_transfer = Inr structs"
    and j: "j < length structs"
    and k: "key \<in> set (normalize_keys keys_to_transfer)"
  shows "\<exists>arr. map_of (arrays original_atoms) key = Some arr
       \<and> (let atom_ind = normalize_inds atom_inds ! j;
               es = emitted_entries (positions original_atoms) (cell original_atoms) atom_ind
                      (np_max3 (side_lengths new_cell) / 2) rc extract_cube
                      (nl ! center_index nl atom_ind)
           in positions (structs ! j)
                = map (\<lambda>e. vadd (displacement (positions original_atoms) (cell original_atoms)
                                   atom_ind e) (vhalf (side_lengths new_cell))) es
              \<and> map_of (arrays (structs ! j)) key = Some (map (\<lambda>e. arr ! fst e) es)
              \<and> (\<forall>e \<in> set es. fst e < length arr))"
proof -
  from extract_env_nth [OF r j] obtain a key_arrays where
    nc: "new_cell = Vec3 (a, a, a)"
    and ka: "get_arrays (arrays original_atoms) (normalize_keys keys_to_transfer) [] = Inr key_arrays"
    and x: "extract_one nl metadata_key original_atoms rc new_cell extract_cube
           (normalize_keys keys_to_transfer) (a, a, a) a key_arrays (normalize_inds atom_inds ! j)
         = Inr (structs ! j)"
    by blast
  note X = extract_one_Inr [OF x ka]
  from X(6) [OF k] X(1) show ?thesis
    by (auto simp: nc side_lengths_cubic(1,2) Let_def)
qed

section \<open>The claims at the chain of three atoms\<close>

lemma chain_result_sphere_first:
  "extract_env chain_nl ''meta'' chain_source 2 (Many [0]) (Vec3 (6, 6, 6)) False
     (Some [''charges_value''])
   = Inr [\<lparr>positions = [(3, 3, 3), (4, 3, 3)], symbols = [''Cu'', ''Au''],
           cell = ((6, 0, 0), (0, 6, 0), (0, 0, 6)), pbc = True,
           arrays = [(''charges_value'', [7, 8])],
           info = [(''charges_note'', Plain 1), (''meta'', Dict [(''charges'', 5)])],
           fix_atoms = [0, 1]\<rparr>]"
  by (simp add: chain_source_def chain_nl_def eval_defs numeral_3_eq_3)


theorem auxiliary_arrays_aligned_witness:
  "extract_env chain_nl ''meta'' chain_source 2 (Many [0]) (Vec3 (6, 6, 6)) False
     (Some [''charges_value''])
   = Inr [\<lparr>positions = [(3, 3, 3), (4, 3, 3)], symbols = [''Cu'', ''Au''],
           cell = ((6, 0, 0), (0, 6, 0), (0, 0, 6)), pbc = True,
           arrays = [(''charges_value'', [7, 8])],
           info = [(''charges_note'', Plain 1), (''meta'', Dict [(''charges'', 5)])],
           fix_atoms = [0, 1]\<rparr>]
   \<and> ''charges_value'' \<in> set (normalize_keys (Some [''charges_value'']))
   \<and> emitted_entries (positions chain_source) (cell chain_source) 0 3 2 False (chain_nl ! 0)
       = [(0, (0, 0, 0)), (1, (0, 0, 0))]
   \<and> map_of (arrays chain_source) ''charges_value'' = Some [7, 8, 9]
   \<and> map (\<lambda>e. [7, 8, 9 :: nat] ! fst e) [(0, (0, 0, 0)), (1, (0 :: int, 0 :: int, 0 :: int))]
       = [7, 8]"
proof -
  have j: "0 < length [\<lparr>positions = [(3, 3, 3), (4, 3, 3)], symbols = [''Cu'', ''Au''],
           cell = ((6, 0, 0), (0, 6, 0), (0, 0, 6)), pbc = True,
           arrays = [(''charges_value'', [7, 8 :: nat])],
           info = [(''charges_note'', Plain (1 :: nat)), (''meta'', Dict [(''charges'', 5)])],
           fix_atoms = [0, 1]\<rparr>]"
    by simp
  have k: "''charges_value'' \<in> set (normalize_keys (Some [''charges_value'']))"
    by (simp add: normalize_keys_def)
  have es: "emitted_entries (positions chain_source) (cell chain_source) 0 3 2 False (chain_nl ! 0)
       = [(0, (0, 0, 0)), (1, (0, 0, 0))]"
    by (simp add: emitted_entries_def sphere_entries_def cube_entries_def displacement_def
          center_index_def chain_source_def chain_nl_def numeral_3_eq_3 vadd_def vsub_def
          offset_matmul_def in_cube_def norm3_axis)
  from auxiliary_arrays_aligned [OF chain_result_sphere_first j k]
  have "map_of (arrays chain_source) ''charges_value'' = Some [7, 8, 9]"
    by (auto simp: chain_source_def)
  with chain_result_sphere_first k es show ?thesis by simp
qed

section \<open>The centre atom of an extracted structure\<close>










section \<open>The metadata of an extracted structure\<close>

lemma extract_env_info:
  assumes r: "extract_env nl metadata_key original_atoms rc atom_inds new_cell extract_cube
                keys_to_transfer = Inr structs"
    and s: "s \<in> set structs"
  obtains ni nm where
    "build_info metadata_key (info original_atoms)
       (map rsplit_base (normalize_keys keys_to_transfer)) ([], []) = Inr (ni, nm)"
    and "info s = dict_set metadata_key (Dict nm) ni"
proof -
  from s obtain j where j: "j < length structs" and sj: "s = structs ! j"
    by (auto simp: in_set_conv_nth)
  from extract_env_nth [OF r j] obtain a key_arrays where
    ka: "get_arrays (arrays original_atoms) (normalize_keys keys_to_transfer) [] = Inr key_arrays"
    and x: "extract_one nl metadata_key original_atoms rc new_cell extract_cube
           (normalize_keys keys_to_transfer) (a, a, a) a key_arrays (normalize_inds atom_inds ! j)
         = Inr s"
    unfolding sj by blast
  from extract_one_Inr(8) [OF x ka] that show ?thesis by blast
qed

text \<open>
  C6, as amended. In every structure the call returns, the \<^verbatim>\<open>info\<close> dictionary holds,
  besides the reserved key, exactly the source's top-level entries whose key contains (as a
  substring) the base name of a requested key; under the reserved key it holds a new nested
  dictionary with exactly the entries of the source's nested dictionary whose key equals the
  base name of a requested key (empty when nothing is requested).
\<close>

theorem metadata_filtered:
  assumes r: "extract_env nl metadata_key original_atoms rc atom_inds new_cell extract_cube
                keys_to_transfer = Inr structs"
    and s: "s \<in> set structs"
  shows "(\<forall>k. k \<noteq> metadata_key \<longrightarrow>
            map_of (info s) k =
              (if \<exists>key \<in> set (normalize_keys keys_to_transfer). str_contains (rsplit_base key) k
               then map_of (info original_atoms) k else None))
       \<and> (\<exists>nm. map_of (info s) metadata_key = Some (Dict nm)
             \<and> (normalize_keys keys_to_transfer = [] \<longrightarrow> nm = [])
             \<and> (\<forall>md. map_of (info original_atoms) metadata_key = Some (Dict md) \<longrightarrow>
                   (\<forall>k. map_of nm k =
                      (if k \<in> rsplit_base ` set (normalize_keys keys_to_transfer)
                       then map_of md k else None))))"
proof -
  from extract_env_info [OF r s] obtain ni nm where
    bi: "build_info metadata_key (info original_atoms)
           (map rsplit_base (normalize_keys keys_to_transfer)) ([], []) = Inr (ni, nm)"
    and i: "info s = dict_set metadata_key (Dict nm) ni"
    by blast
  note B = build_info_Inr [OF bi]
  have top: "\<forall>k. k \<noteq> metadata_key \<longrightarrow>
            map_of (info s) k =
              (if \<exists>key \<in> set (normalize_keys keys_to_transfer). str_contains (rsplit_base key) k
               then map_of (info original_atoms) k else None)"
    using B by (auto simp: i map_of_dict_set)
  have here: "map_of (info s) metadata_key = Some (Dict nm)"
    by (simp add: i map_of_dict_set)
  have empty: "normalize_keys keys_to_transfer = [] \<longrightarrow> nm = []"
    using bi by auto
  have nested: "\<forall>md. map_of (info original_atoms) metadata_key = Some (Dict md) \<longrightarrow>
                   (\<forall>k. map_of nm k =
                      (if k \<in> rsplit_base ` set (normalize_keys keys_to_transfer)
                       then map_of md k else None))"
    using B by auto
  from top here empty nested show ?thesis by blast
qed

theorem metadata_filtered_witness:
  "extract_env scenario_nl ''meta'' scenario_source 2 (Many [0]) (Vec3 (6, 6, 6)) False
     (Some [''charges_value''])
   = Inr [\<lparr>positions = [(3, 3, 3)], symbols = [''Cu''],
           cell = ((6, 0, 0), (0, 6, 0), (0, 0, 6)), pbc = True,
           arrays = [(''charges_value'', [7])],
           info = [(''charges_note'', Plain 1), (''meta'', Dict [(''charges'', 5)])],
           fix_atoms = [0]\<rparr>]
   \<and> ''charges_note'' \<noteq> ''meta''
   \<and> str_contains (rsplit_base ''charges_value'') ''charges_note''
   \<and> map_of (info scenario_source) ''charges_note'' = Some (Plain 1)
   \<and> map_of (info scenario_source) ''meta'' = Some (Dict [(''charges'', 5), (''charges_extra'', 6)])
   \<and> ''charges'' \<in> rsplit_base ` set (normalize_keys (Some [''charges_value'']))
   \<and> ''charges_extra'' \<notin> rsplit_base ` set (normalize_keys (Some [''charges_value'']))
   \<and> normalize_keys None = []
   \<and> extract_env coincident_nl ''meta'' coincident_source 2 (Many [0]) (Vec3 (6, 6, 6)) False None
     = Inr [\<lparr>positions = [(3, 3, 3), (3, 3, 3)], symbols = [''Cu'', ''Au''],
           cell = ((6, 0, 0), (0, 6, 0), (0, 0, 6)), pbc = True,
           arrays = [], info = [(''meta'', Dict [])],
           fix_atoms = [0, 1]\<rparr>]"
proof -
  let ?s = "\<lparr>positions = [(3, 3, 3)], symbols = [''Cu''],
           cell = ((6, 0, 0), (0, 6, 0), (0, 0, 6)), pbc = True,
           arrays = [(''charges_value'', [7 :: nat])],
           info = [(''charges_note'', Plain (1 :: nat)), (''meta'', Dict [(''charges'', 5)])],
           fix_atoms = [0]\<rparr>"
  have m: "?s \<in> set [?s]" by simp
  have b: "rsplit_base ''charges_value'' = ''charges''" by (simp add: rsplit_base_def)
  from metadata_filtered [OF scenario_result m]
  have "map_of (info scenario_source) ''meta'' = Some (Dict [(''charges'', 5), (''charges_extra'', 6)])"
    by (simp add: scenario_source_def)
  moreover
  let ?t = "\<lparr>positions = [(3, 3, 3), (3, 3, 3)], symbols = [''Cu'', ''Au''],
           cell = ((6, 0, 0), (0, 6, 0), (0, 0, 6)), pbc = True,
           arrays = ([] :: (string \<times> nat list) list),
           info = [(''meta'', Dict ([] :: (string \<times> nat) list))],
           fix_atoms = [0, 1]\<rparr>"
  have mt: "?t \<in> set [?t]" by simp
  from metadata_filtered [OF coincident_result mt]
  have "normalize_keys None = []"
    by (simp add: normalize_keys_def)
  ultimately show ?thesis
    using scenario_result [of False] coincident_result
    by (simp add: b normalize_keys_def) (simp add: scenario_source_def)
qed

text \<open>
  C6, as stated, fails on the nested dictionary: its key \<open>charges_extra\<close> contains the base
  name \<open>charges\<close> of the requested key \<open>charges_value\<close>, and the returned nested dictionary
  holds \<open>charges\<close> only (line 146 tests membership of the base name, not substrings).
\<close>

theorem nested_metadata_exact_counterexample:
  "str_contains (rsplit_base ''charges_value'') ''charges_extra''
   \<and> map_of (info scenario_source) ''meta'' = Some (Dict [(''charges'', 5), (''charges_extra'', 6)])
   \<and> extract_env scenario_nl ''meta'' scenario_source 2 (Many [0]) (Vec3 (6, 6, 6)) False
        (Some [''charges_value''])
      = Inr [\<lparr>positions = [(3, 3, 3)], symbols = [''Cu''],
           cell = ((6, 0, 0), (0, 6, 0), (0, 0, 6)), pbc = True,
           arrays = [(''charges_value'', [7])],
           info = [(''charges_note'', Plain 1), (''meta'', Dict [(''charges'', 5)])],
           fix_atoms = [0]\<rparr>]"
proof (intro conjI)
  show "str_contains (rsplit_base ''charges_value'') ''charges_extra''"
    by (simp add: rsplit_base_def)
  show "map_of (info scenario_source) ''meta''
      = Some (Dict [(''charges'', 5), (''charges_extra'', 6)])"
    by (simp add: scenario_source_def)
  show "extract_env scenario_nl ''meta'' scenario_source 2 (Many [0]) (Vec3 (6, 6, 6)) False
        (Some [''charges_value''])
      = Inr [\<lparr>positions = [(3, 3, 3)], symbols = [''Cu''],
           cell = ((6, 0, 0), (0, 6, 0), (0, 0, 6)), pbc = True,
           arrays = [(''charges_value'', [7])],
           info = [(''charges_note'', Plain 1), (''meta'', Dict [(''charges'', 5)])],
           fix_atoms = [0]\<rparr>]"
    by (rule scenario_result)
qed

lemma extract_one_KeyError:
  assumes v: "valid_geometry nl original_atoms rc inds new_cell keys"
    and ka: "get_arrays (arrays original_atoms) keys [] = Inr key_arrays"
    and i: "atom_ind \<in> set inds"
    and k: "keys \<noteq> []"
    and none: "map_of (info original_atoms) metadata_key = None"
  shows "extract_one nl metadata_key original_atoms rc new_cell extract_cube keys cell_norms
           max_cell_len key_arrays atom_ind = Inl (KeyError metadata_key)"
proof -
  from gather_valid [OF v ka i] obtain sel where
    g: "gather nl original_atoms rc keys max_cell_len key_arrays atom_ind = Inr sel" by blast
  from v have d: "distinct keys" by (simp add: valid_geometry_def)
  let ?a0 = "\<lparr>positions = map (\<lambda>d. vadd d (vhalf cell_norms))
                            (if extract_cube then cube_disp sel else sphere_disp sel),
               symbols = (if extract_cube then cube_symbols sel else sphere_symbols sel),
               cell = to_cell new_cell, pbc = True, arrays = [], info = [], fix_atoms = []\<rparr>
             :: ('a, 'b) atoms"
  from set_arrays_valid [OF g d, of ?a0 extract_cube] obtain a1 where
    sa: "set_arrays (if extract_cube then cube_arrays sel else sphere_arrays sel) ?a0 = Inr a1"
    by auto
  from k have "map rsplit_base keys \<noteq> []" by simp
  from build_info_KeyError [OF this none]
  have bi: "build_info metadata_key (info original_atoms) (map rsplit_base keys) ([], [])
      = Inl (KeyError metadata_key)" .
  show ?thesis using g sa bi
    by (simp add: extract_one_def make_atoms_def Let_def)
qed

lemma gather_info_independent:
  "gather nl (original_atoms\<lparr>info := other\<rparr>) rc keys max_cell_len key_arrays atom_ind
     = gather nl original_atoms rc keys max_cell_len key_arrays atom_ind"
  by (simp add: gather_def split: sum.splits)

lemma make_atoms_no_keys:
  "make_atoms metadata_key source_info new_cell extract_cube [] cell_norms sel
     = make_atoms metadata_key [] new_cell extract_cube [] cell_norms sel"
  by (simp add: make_atoms_def Let_def split: sum.splits)

lemma extract_one_no_keys:
  "extract_one nl metadata_key (original_atoms\<lparr>info := other\<rparr>) rc new_cell extract_cube []
       cell_norms max_cell_len key_arrays
     = extract_one nl metadata_key original_atoms rc new_cell extract_cube []
         cell_norms max_cell_len key_arrays"
proof (rule ext)
  fix atom_ind
  show "extract_one nl metadata_key (original_atoms\<lparr>info := other\<rparr>) rc new_cell extract_cube []
       cell_norms max_cell_len key_arrays atom_ind
     = extract_one nl metadata_key original_atoms rc new_cell extract_cube []
         cell_norms max_cell_len key_arrays atom_ind"
    unfolding extract_one_def gather_info_independent
    by (cases "gather nl original_atoms rc [] max_cell_len key_arrays atom_ind")
       (simp_all add: make_atoms_no_keys [of _ other] make_atoms_no_keys [of _ "info original_atoms"])
qed

lemma extract_env_no_keys:
  assumes "normalize_keys keys_to_transfer = []"
  shows "extract_env nl metadata_key (original_atoms\<lparr>info := other\<rparr>) rc atom_inds new_cell
           extract_cube keys_to_transfer
         = extract_env nl metadata_key original_atoms rc atom_inds new_cell extract_cube
             keys_to_transfer"
proof (cases new_cell)
  case (Mat3 m)
  then show ?thesis by (simp add: extract_env_Mat3)
next
  case (Vec3 v)
  obtain a b c where v: "v = (a, b, c)" by (cases v rule: prod_cases3)
  show ?thesis unfolding Vec3 v extract_env_Vec3 assms
    by (simp add: extract_one_no_keys split: sum.splits)
qed

text \<open>
  C10, as amended. With at least one key requested, a request that reaches the loop over the
  centres (see \<open>valid_geometry\<close>) and names at least one centre raises \<^verbatim>\<open>KeyError\<close>
  for the reserved key when the source's \<^verbatim>\<open>info\<close> lacks it. With no key requested (an empty list or
  \<^verbatim>\<open>None\<close>) the source's \<^verbatim>\<open>info\<close> is not read: the result is the same for every
  \<^verbatim>\<open>info\<close>. And in every structure the call returns, \<^verbatim>\<open>info\<close> holds a dictionary under
  the reserved key.
\<close>

theorem metadata_key_access:
  "(valid_geometry nl original_atoms rc inds new_cell keys \<and> inds \<noteq> [] \<and> keys \<noteq> []
      \<and> map_of (info original_atoms) metadata_key = None
     \<longrightarrow> extract_env nl metadata_key original_atoms rc (Many inds) new_cell extract_cube (Some keys)
           = Inl (KeyError metadata_key))
   \<and> (normalize_keys keys_to_transfer = []
     \<longrightarrow> extract_env nl metadata_key (original_atoms\<lparr>info := other\<rparr>) rc atom_inds new_cell
           extract_cube keys_to_transfer
         = extract_env nl metadata_key original_atoms rc atom_inds new_cell extract_cube
             keys_to_transfer)
   \<and> (\<forall>structs. extract_env nl metadata_key original_atoms rc atom_inds new_cell extract_cube
                  keys_to_transfer = Inr structs
     \<longrightarrow> (\<forall>s \<in> set structs. \<exists>nm. map_of (info s) metadata_key = Some (Dict nm)))"
proof (intro conjI impI allI ballI)
  assume a: "valid_geometry nl original_atoms rc inds new_cell keys \<and> inds \<noteq> [] \<and> keys \<noteq> []
      \<and> map_of (info original_atoms) metadata_key = None"
  then have v: "valid_geometry nl original_atoms rc inds new_cell keys" by simp
  from a obtain i rest where inds: "inds = i # rest" by (cases inds) auto
  from valid_geometry_D [OF v] obtain c key_arrays where
    nc: "new_cell = Vec3 (c, c, c)"
    and ic: "initial_checks (cell original_atoms) rc (c, c, c) (np_max3 (c, c, c)) = Inr ()"
    and ka: "get_arrays (arrays original_atoms) keys [] = Inr key_arrays"
    by blast
  have "extract_one nl metadata_key original_atoms rc new_cell extract_cube keys (c, c, c)
          (np_max3 (c, c, c)) key_arrays i = Inl (KeyError metadata_key)"
    using a by (intro extract_one_KeyError [OF v ka]) (simp_all add: inds)
  then show "extract_env nl metadata_key original_atoms rc (Many inds) new_cell extract_cube
      (Some keys) = Inl (KeyError metadata_key)"
    by (simp add: nc extract_env_Vec3 ic normalize_keys_def normalize_inds_def ka inds)
next
  assume "normalize_keys keys_to_transfer = []"
  then show "extract_env nl metadata_key (original_atoms\<lparr>info := other\<rparr>) rc atom_inds new_cell
           extract_cube keys_to_transfer
         = extract_env nl metadata_key original_atoms rc atom_inds new_cell extract_cube
             keys_to_transfer"
    by (rule extract_env_no_keys)
next
  fix structs s
  assume r: "extract_env nl metadata_key original_atoms rc atom_inds new_cell extract_cube
                  keys_to_transfer = Inr structs"
    and s: "s \<in> set structs"
  from extract_env_info [OF r s] obtain ni nm where
    "info s = dict_set metadata_key (Dict nm) ni" by blast
  then show "\<exists>nm. map_of (info s) metadata_key = Some (Dict nm)"
    by (simp add: map_of_dict_set)
qed

theorem metadata_key_access_witness:
  "valid_geometry scenario_nl (scenario_source\<lparr>info := []\<rparr>) 2 [0] (Vec3 (6, 6, 6))
     [''charges_value'']
   \<and> [0 :: int] \<noteq> [] \<and> [''charges_value''] \<noteq> []
   \<and> map_of (info (scenario_source\<lparr>info := []\<rparr>)) ''meta'' = None
   \<and> extract_env scenario_nl ''meta'' (scenario_source\<lparr>info := []\<rparr>) 2 (Many [0])
        (Vec3 (6, 6, 6)) False (Some [''charges_value'']) = Inl (KeyError ''meta'')
   \<and> normalize_keys None = []
   \<and> extract_env scenario_nl ''meta'' (scenario_source\<lparr>info := []\<rparr>) 2 (Many [0])
        (Vec3 (6, 6, 6)) False None
     = extract_env scenario_nl ''meta'' scenario_source 2 (Many [0]) (Vec3 (6, 6, 6)) False None
   \<and> extract_env scenario_nl ''meta'' scenario_source 2 (Many [0]) (Vec3 (6, 6, 6)) False
        (Some [''charges_value''])
     = Inr [\<lparr>positions = [(3, 3, 3)], symbols = [''Cu''],
           cell = ((6, 0, 0), (0, 6, 0), (0, 0, 6)), pbc = True,
           arrays = [(''charges_value'', [7])],
           info = [(''charges_note'', Plain 1), (''meta'', Dict [(''charges'', 5)])],
           fix_atoms = [0]\<rparr>]
   \<and> (\<exists>nm. map_of [(''charges_note'', Plain (1 :: nat)), (''meta'', Dict [(''charges'', 5 :: nat)])]
               ''meta'' = Some (Dict nm))"
proof -
  have v: "valid_geometry scenario_nl (scenario_source\<lparr>info := []\<rparr>) 2 [0] (Vec3 (6, 6, 6))
     [''charges_value'']"
    by (simp add: valid_geometry_def scenario_source_def scenario_nl_def too_small_condition_def
          side_lengths_def np_max3_def row_norms_diagonal)
  have n: "map_of (info (scenario_source\<lparr>info := []\<rparr>)) ''meta'' = None" by simp
  have k: "normalize_keys None = []" by (simp add: normalize_keys_def)
  note t1 = metadata_key_access [of scenario_nl "scenario_source\<lparr>info := []\<rparr>" 2 "[0]"
      "Vec3 (6, 6, 6)" "[''charges_value'']" "''meta''" False None "[]" "Many [0]"]
  from t1 v n have a: "extract_env scenario_nl ''meta'' (scenario_source\<lparr>info := []\<rparr>) 2 (Many [0])
        (Vec3 (6, 6, 6)) False (Some [''charges_value'']) = Inl (KeyError ''meta'')"
    by simp
  note t2 = metadata_key_access [of scenario_nl scenario_source 2 "[0]"
      "Vec3 (6, 6, 6)" "[''charges_value'']" "''meta''" False None "[]" "Many [0]"]
  from t2 k have b: "extract_env scenario_nl ''meta'' (scenario_source\<lparr>info := []\<rparr>) 2 (Many [0])
        (Vec3 (6, 6, 6)) False None
     = extract_env scenario_nl ''meta'' scenario_source 2 (Many [0]) (Vec3 (6, 6, 6)) False None"
    by blast
  have c: "\<exists>nm. map_of [(''charges_note'', Plain (1 :: nat)), (''meta'', Dict [(''charges'', 5 :: nat)])]
               ''meta'' = Some (Dict nm)"
    by simp
  from v n a k b scenario_result [of False] c show ?thesis by simp
qed

text \<open>
  C10, as stated, fails where the loop over the centres has nothing to do: with a key
  requested, no reserved key in the source's \<^verbatim>\<open>info\<close> and an empty list of centre
  indices, the request passes validation and the call returns the empty list; nothing is read
  and no \<^verbatim>\<open>KeyError\<close> is raised.
\<close>

theorem no_centre_no_key_error_counterexample:
  "normalize_keys (Some [''charges_value'']) = [''charges_value'']
   \<and> map_of (info (scenario_source\<lparr>info := []\<rparr>)) ''meta'' = None
   \<and> extract_env scenario_nl ''meta'' (scenario_source\<lparr>info := []\<rparr>) 2 (Many [])
        (Vec3 (6, 6, 6)) False (Some [''charges_value'']) = Inr []"
  by (simp add: scenario_source_def scenario_nl_def eval_defs)

end
